theory Spec2Isabelle
  imports Main "HOL-Library.List_Lexorder" "HOL-Library.Signed_Division"
begin

text \<open>
  The upload path of the G-code combiner: the extraction of plates from an uploaded
  archive, the scanner, formatter and parser of time estimates, and the operations on the
  queue of selectable files. The functions of \<open>src/utils/fileProcessor.ts\<close> and the
  callbacks of the \<open>App\<close> and \<open>FileList\<close> components are embedded as functions of HOL,
  errors as values of a sum type, loops as recursive functions; the properties claimed of
  them follow the definitions.
\<close>

section \<open>JavaScript strings and numbers\<close>

text \<open>
  A JavaScript string is a sequence of UTF-16 code units; it is modelled as the list of
  their numeric values, so that the regular expressions, \<open>trim\<close>, \<open>split\<close> and the default
  \<open>sort\<close> comparison (code unit by code unit, a proper prefix first) are exactly those of
  the language. \<open>str\<close> turns an ASCII literal of the source into such a list.

  JavaScript numbers are modelled as unbounded integers: every number the program computes
  is an integer, and the arithmetic and the decimal rendering of the model are those of
  JavaScript on the safe integers (absolute value below \<open>2^53\<close>).
\<close>

type_synonym jsstring = "nat list"

definition str :: "string \<Rightarrow> jsstring" where
  "str s = map of_char s"

text \<open>The white space and line terminator code units: what \<open>\s\<close> matches and \<open>trim\<close> strips.\<close>

definition is_space :: "nat \<Rightarrow> bool" where
  "is_space c = (c \<in> {9, 10, 11, 12, 13, 32, 160, 5760, 8232, 8233, 8239, 8287, 12288, 65279}
                 \<or> (8192 \<le> c \<and> c \<le> 8202))"

text \<open>The line terminators: what \<open>.\<close> does not match.\<close>

definition is_line_terminator :: "nat \<Rightarrow> bool" where
  "is_line_terminator c = (c \<in> {10, 13, 8232, 8233})"

definition is_digit :: "nat \<Rightarrow> bool" where
  "is_digit c = (48 \<le> c \<and> c \<le> 57)"

definition trim :: "jsstring \<Rightarrow> jsstring" where
  "trim s = rev (dropWhile is_space (rev (dropWhile is_space s)))"

definition endsWith :: "jsstring \<Rightarrow> jsstring \<Rightarrow> bool" where
  "endsWith s suffix = (take (length suffix) (rev s) = rev suffix)"

text \<open>\<open>s.split(sep)\<close> for a separator of one code unit; the empty string gives one empty segment.\<close>

fun split :: "nat \<Rightarrow> jsstring \<Rightarrow> jsstring list" where
  "split sep [] = [[]]"
| "split sep (c # cs) =
     (if c = sep then [] # split sep cs
      else (case split sep cs of seg # segs \<Rightarrow> (c # seg) # segs | [] \<Rightarrow> [[c]]))"

fun join :: "jsstring \<Rightarrow> jsstring list \<Rightarrow> jsstring" where
  "join sep [] = []"
| "join sep [part] = part"
| "join sep (part # parts) = part @ sep @ join sep parts"

text \<open>The decimal rendering of an integer, as a template literal \<open>`${n}`\<close> produces it.\<close>

fun digits_of_nat :: "nat \<Rightarrow> jsstring" where
  "digits_of_nat n = (if n < 10 then [48 + n] else digits_of_nat (n div 10) @ [48 + n mod 10])"

declare digits_of_nat.simps [simp del]

definition string_of_int :: "int \<Rightarrow> jsstring" where
  "string_of_int n = (if n < 0 then str ''-'' @ digits_of_nat (nat (- n)) else digits_of_nat (nat n))"

definition nat_of_digits :: "jsstring \<Rightarrow> nat" where
  "nat_of_digits ds = foldl (\<lambda>acc c. 10 * acc + (c - 48)) 0 ds"

text \<open>
  \<open>Number.parseInt(s, 10)\<close>: leading white space is skipped, a sign is read, then the
  longest run of decimal digits; \<open>None\<close> stands for \<open>NaN\<close> (no digit).
\<close>

definition parseInt :: "jsstring \<Rightarrow> int option" where
  "parseInt s =
     (let t = dropWhile is_space s;
          negative = (t \<noteq> [] \<and> hd t = 45);
          u = (if t \<noteq> [] \<and> (hd t = 45 \<or> hd t = 43) then tl t else t);
          z = takeWhile is_digit u
      in if z = [] then None
         else Some ((if negative then - 1 else 1) * int (nat_of_digits z)))"

text \<open>
  Where the source reads the number straight out of \<open>parseInt\<close>, its argument has just
  matched \<open>\d+\<close>, so \<open>NaN\<close> does not arise there (lemma \<open>parseInt_digits\<close> below).
\<close>

definition parseInt_number :: "jsstring \<Rightarrow> int" where
  "parseInt_number s = (case parseInt s of Some n \<Rightarrow> n | None \<Rightarrow> 0)"

section \<open>Regular expressions\<close>

text \<open>
  The patterns of the source are written as syntax trees and run by a backtracking matcher.
  \<open>ms r s\<close> lists every way \<open>r\<close> matches a prefix of \<open>s\<close>, in the order in which a
  backtracking engine tries them: each result is the text captured by the group and the rest
  of the input. A greedy star tries one more iteration before stopping, a lazy one stops
  first; an iteration that consumes nothing is not repeated. The match of a pattern at a
  position is the first result of the list.
\<close>

datatype regex =
    Atom "nat \<Rightarrow> bool"
  | Eps
  | Eol
  | Seq regex regex
  | Alt regex regex
  | Star bool regex
  | Group regex

definition merge_capture :: "jsstring option \<Rightarrow> jsstring option \<Rightarrow> jsstring option" where
  "merge_capture c1 c2 = (case c2 of None \<Rightarrow> c1 | Some v \<Rightarrow> Some v)"

fun ms :: "regex \<Rightarrow> jsstring \<Rightarrow> (jsstring option \<times> jsstring) list" where
  "ms (Atom p) s = (case s of [] \<Rightarrow> [] | c # cs \<Rightarrow> if p c then [(None, cs)] else [])"
| "ms Eps s = [(None, s)]"
| "ms Eol s = (if s = [] then [(None, s)] else [])"
| "ms (Seq r1 r2) s =
     concat (map (\<lambda>(c1, s1). map (\<lambda>(c2, s2). (merge_capture c1 c2, s2)) (ms r2 s1)) (ms r1 s))"
| "ms (Alt r1 r2) s = ms r1 s @ ms r2 s"
| "ms (Star greedy r) s =
     (let more = concat (map (\<lambda>(c1, s1).
                    if length s1 < length s
                    then map (\<lambda>(c2, s2). (merge_capture c1 c2, s2)) (ms (Star greedy r) s1)
                    else []) (ms r s))
      in if greedy then more @ [(None, s)] else (None, s) # more)"
| "ms (Group r) s = map (\<lambda>(c, s'). (Some (take (length s - length s') s), s')) (ms r s)"

text \<open>
  \<open>s.match(r)\<close> for a pattern without the global flag: the match at the leftmost position
  that has one (the end of the input is a position too). The result is the capture of
  group 1.
\<close>

fun re_match :: "regex \<Rightarrow> jsstring \<Rightarrow> jsstring option option" where
  "re_match r [] = (case ms r [] of (c, rest) # other \<Rightarrow> Some c | [] \<Rightarrow> None)"
| "re_match r (x # xs) =
     (case ms r (x # xs) of (c, rest) # other \<Rightarrow> Some c | [] \<Rightarrow> re_match r xs)"

text \<open>\<open>r.test(s)\<close> for a pattern that starts with \<open>^\<close>: only position 0 is tried.\<close>

definition re_test_at_start :: "regex \<Rightarrow> jsstring \<Rightarrow> bool" where
  "re_test_at_start r s = (ms r s \<noteq> [])"

text \<open>
  \<open>match[1]\<close>. In every pattern of the source the group lies on the only path through the
  pattern, so it is defined whenever the pattern matches.
\<close>

definition group1 :: "jsstring option \<Rightarrow> jsstring" where
  "group1 m = (case m of Some v \<Rightarrow> v | None \<Rightarrow> [])"

definition seqs :: "regex list \<Rightarrow> regex" where
  "seqs rs = foldr Seq rs Eps"

definition Plus :: "bool \<Rightarrow> regex \<Rightarrow> regex" where
  "Plus greedy r = Seq r (Star greedy r)"

definition Opt :: "regex \<Rightarrow> regex" where
  "Opt r = Alt r Eps"

text \<open>
  A literal character under the \<open>i\<close> flag. The literals of the source are ASCII, and an
  ASCII letter is matched by its two cases only.
\<close>

definition to_upper :: "nat \<Rightarrow> nat" where
  "to_upper c = (if 97 \<le> c \<and> c \<le> 122 then c - 32 else c)"

definition chr_i :: "char \<Rightarrow> regex" where
  "chr_i c = Atom (\<lambda>x. x < 128 \<and> to_upper x = to_upper (of_char c))"

definition str_i :: "string \<Rightarrow> regex" where
  "str_i s = seqs (map chr_i s)"

definition digit :: regex where
  "digit = Atom is_digit"

definition space :: regex where
  "space = Atom is_space"

definition dot :: regex where
  "dot = Atom (\<lambda>c. \<not> is_line_terminator c)"

definition one_of :: "string \<Rightarrow> regex" where
  "one_of cs = Atom (\<lambda>x. x \<in> set (str cs))"

section \<open>Time estimates (src/utils/fileProcessor.ts)\<close>

text \<open>
  The three patterns of \<open>parseEstimatedTime\<close>, all with the \<open>i\<close> flag:
  \<^verbatim>\<open>/;\s*estimated printing time.*?=\s*(.+?)(?:\n|$)/i\<close>,
  \<^verbatim>\<open>/;\s*TIME[_:]?\s*(\d+)/i\<close> and
  \<^verbatim>\<open>/;\s*total estimated time[:\s]*(.+?)(?:\n|$)/i\<close>.
\<close>

definition estimatedPrintingTimePattern :: regex where
  "estimatedPrintingTimePattern =
     seqs [chr_i CHR '';'', Star True space, str_i ''estimated printing time'', Star False dot,
           chr_i CHR ''='', Star True space, Group (Plus False dot), Alt (chr_i CHR 0x0A) Eol]"

definition timeTagPattern :: regex where
  "timeTagPattern =
     seqs [chr_i CHR '';'', Star True space, str_i ''TIME'', Opt (one_of ''_:''), Star True space,
           Group (Plus True digit)]"

definition totalEstimatedTimePattern :: regex where
  "totalEstimatedTimePattern =
     seqs [chr_i CHR '';'', Star True space, str_i ''total estimated time'',
           Star True (Atom (\<lambda>c. c = of_char CHR '':'' \<or> is_space c)),
           Group (Plus False dot), Alt (chr_i CHR 0x0A) Eol]"

definition timePatterns :: "regex list" where
  "timePatterns = [estimatedPrintingTimePattern, timeTagPattern, totalEstimatedTimePattern]"

text \<open>\<^verbatim>\<open>/^\d+$/\<close>, tried at position 0.\<close>

definition allDigitsPattern :: regex where
  "allDigitsPattern = seqs [Plus True digit, Eol]"

text \<open>\<^verbatim>\<open>/(\d+)\s*h/i\<close>, \<^verbatim>\<open>/(\d+)\s*m/i\<close> and \<^verbatim>\<open>/(\d+)\s*s/i\<close>.\<close>

definition unitPattern :: "char \<Rightarrow> regex" where
  "unitPattern u = seqs [Group (Plus True digit), Star True space, chr_i u]"

definition formatSeconds :: "int \<Rightarrow> jsstring" where
  "formatSeconds totalSeconds =
     (let hours = totalSeconds div 3600;
          minutes = (totalSeconds smod 3600) div 60;
          seconds = totalSeconds smod 60;
          parts = [];
          parts = (if hours > 0 then parts @ [string_of_int hours @ str ''h''] else parts);
          parts = (if minutes > 0 then parts @ [string_of_int minutes @ str ''m''] else parts);
          parts = (if seconds > 0 \<or> length parts = 0
                   then parts @ [string_of_int seconds @ str ''s''] else parts)
      in join (str '' '') parts)"

text \<open>The body of the loop over the patterns: what is returned once a pattern has matched.\<close>

definition estimate_of_match :: "jsstring option \<Rightarrow> jsstring" where
  "estimate_of_match m =
     (let val = trim (group1 m)
      in if re_test_at_start allDigitsPattern val
         then formatSeconds (parseInt_number val)
         else val)"

fun parseEstimatedTime_loop :: "regex list \<Rightarrow> jsstring \<Rightarrow> jsstring option" where
  "parseEstimatedTime_loop [] gcode = None"
| "parseEstimatedTime_loop (pattern # patterns) gcode =
     (case re_match pattern gcode of
        Some m \<Rightarrow> Some (estimate_of_match m)
      | None \<Rightarrow> parseEstimatedTime_loop patterns gcode)"

definition parseEstimatedTime :: "jsstring \<Rightarrow> jsstring option" where
  "parseEstimatedTime gcode = parseEstimatedTime_loop timePatterns gcode"

definition parseTimeToSeconds :: "jsstring \<Rightarrow> int" where
  "parseTimeToSeconds timeStr =
     (if re_test_at_start allDigitsPattern (trim timeStr) then parseInt_number (trim timeStr)
      else
        (let totalSeconds = 0;
             hourMatch = re_match (unitPattern CHR ''h'') timeStr;
             minMatch = re_match (unitPattern CHR ''m'') timeStr;
             secMatch = re_match (unitPattern CHR ''s'') timeStr;
             totalSeconds = (case hourMatch of
                               Some m \<Rightarrow> totalSeconds + parseInt_number (group1 m) * 3600
                             | None \<Rightarrow> totalSeconds);
             totalSeconds = (case minMatch of
                               Some m \<Rightarrow> totalSeconds + parseInt_number (group1 m) * 60
                             | None \<Rightarrow> totalSeconds);
             totalSeconds = (case secMatch of
                               Some m \<Rightarrow> totalSeconds + parseInt_number (group1 m)
                             | None \<Rightarrow> totalSeconds)
         in totalSeconds))"

section \<open>Archives and plates (src/utils/fileProcessor.ts, src/types.ts)\<close>

text \<open>
  The ZIP library is not part of the repository. What the program uses of it is taken as
  given: \<open>loadAsync\<close> maps the bytes of an upload to the loaded archive or fails
  (\<open>None\<close>), and the loaded archive is its table \<open>zip.files\<close>, the member names in key
  order, each with its \<open>dir\<close> flag and the text that \<open>async('string')\<close> decodes.
\<close>

record zip_object =
  dir :: bool
  content :: jsstring

type_synonym jszip = "(jsstring \<times> zip_object) list"

text \<open>\<open>zip.file(path)\<close>: the member of that name when it is not a directory, else \<open>null\<close>.\<close>

definition zip_file :: "jszip \<Rightarrow> jsstring \<Rightarrow> zip_object option" where
  "zip_file jz path =
     (case map_of jz path of
        Some obj \<Rightarrow> if dir obj then None else Some obj
      | None \<Rightarrow> None)"

text \<open>An uploaded \<open>File\<close>: its name, and its bytes when they can be read.\<close>

record File =
  file_name :: jsstring
  file_arrayBuffer :: "nat list option"

datatype error = FileProcessingError jsstring

record ParsedGCodeInfo =
  gcode :: jsstring
  lineCount :: nat
  estimatedTime :: "jsstring option"
  plateNumber :: nat

record ExtractedPlates =
  plates :: "ParsedGCodeInfo list"
  originalZip :: "nat list"
  fileName :: jsstring

text \<open>The record pushed for one plate, in both loops of \<open>extractAllPlatesFromZip\<close>.\<close>

definition plate_record :: "jsstring \<Rightarrow> nat \<Rightarrow> ParsedGCodeInfo" where
  "plate_record gcodeContent plateNum =
     \<lparr>gcode = gcodeContent,
      lineCount = length (split 10 gcodeContent),
      estimatedTime = parseEstimatedTime gcodeContent,
      plateNumber = plateNum\<rparr>"

definition plate_path :: "nat \<Rightarrow> jsstring" where
  "plate_path plateNum = str ''Metadata/plate_'' @ string_of_int (int plateNum) @ str ''.gcode''"

function standard_plates_loop :: "jszip \<Rightarrow> nat \<Rightarrow> ParsedGCodeInfo list \<Rightarrow> ParsedGCodeInfo list" where
  "standard_plates_loop jz plateNum ps =
     (if plateNum \<le> 16
      then (case zip_file jz (plate_path plateNum) of
              Some gcodeFile \<Rightarrow>
                standard_plates_loop jz (plateNum + 1)
                  (ps @ [plate_record (content gcodeFile) plateNum])
            | None \<Rightarrow> standard_plates_loop jz (plateNum + 1) ps)
      else ps)"
  by pat_completeness auto
termination
  by (relation "measure (\<lambda>(jz, plateNum, ps). 17 - plateNum)") auto

declare standard_plates_loop.simps [simp del]

text \<open>
  \<open>Object.keys(zip.files).filter(...).sort()\<close>. The names come from the table itself, so
  \<open>zip.files[name]\<close> is defined in the filter.
\<close>

definition gcode_member_names :: "jszip \<Rightarrow> jsstring list" where
  "gcode_member_names jz =
     sort (filter (\<lambda>name. endsWith name (str ''.gcode'')
                           \<and> (case map_of jz name of Some obj \<Rightarrow> \<not> dir obj | None \<Rightarrow> False))
                  (map fst jz))"

function fallback_loop :: "jszip \<Rightarrow> jsstring list \<Rightarrow> nat \<Rightarrow> ParsedGCodeInfo list \<Rightarrow> ParsedGCodeInfo list" where
  "fallback_loop jz gcodeFiles i ps =
     (if i < length gcodeFiles
      then (case map_option content (zip_file jz (gcodeFiles ! i)) of
              Some gcodeContent \<Rightarrow>
                if gcodeContent \<noteq> []
                then fallback_loop jz gcodeFiles (i + 1) (ps @ [plate_record gcodeContent (i + 1)])
                else fallback_loop jz gcodeFiles (i + 1) ps
            | None \<Rightarrow> fallback_loop jz gcodeFiles (i + 1) ps)
      else ps)"
  by pat_completeness auto
termination
  by (relation "measure (\<lambda>(jz, gcodeFiles, i, ps). length gcodeFiles - i)") auto

declare fallback_loop.simps [simp del]

text \<open>The messages of the two \<open>FileProcessingError\<close>s thrown by \<open>extractAllPlatesFromZip\<close>.\<close>

definition invalid_archive_message :: "jsstring \<Rightarrow> jsstring" where
  \<open>invalid_archive_message name =
     str ''"'' @ name
     @ str ''" is not a valid ZIP archive. Make sure you're uploading a .gcode.3mf file.''\<close>

definition no_gcode_message :: "jsstring \<Rightarrow> jsstring" where
  \<open>no_gcode_message name =
     str ''"'' @ name
     @ str ''" doesn't contain any G-code. Make sure you exported it as "All plates sliced file" or "Plate sliced file" from Bambu Studio.''\<close>

definition extractAllPlatesFromZip :: "(nat list \<Rightarrow> jszip option) \<Rightarrow> File \<Rightarrow> error + ExtractedPlates" where
  "extractAllPlatesFromZip loadAsync file =
     (case Option.bind (file_arrayBuffer file)
             (\<lambda>arrayBuffer. map_option (Pair arrayBuffer) (loadAsync arrayBuffer)) of
        None \<Rightarrow> Inl (FileProcessingError (invalid_archive_message (file_name file)))
      | Some (arrayBuffer, jz) \<Rightarrow>
          (let ps = standard_plates_loop jz 1 [];
               ps = (if length ps = 0
                     then fallback_loop jz (gcode_member_names jz) 0 ps
                     else ps)
           in if length ps = 0
              then Inl (FileProcessingError (no_gcode_message (file_name file)))
              else Inr \<lparr>plates = ps, originalZip = arrayBuffer, fileName = file_name file\<rparr>))"

text \<open>
  \<open>generateId\<close> reads the clock and the random number generator. It is modelled as a
  supply of identifiers: \<open>generateId n\<close> is what the \<open>n\<close>-th call returns, and the number
  of calls made so far is passed along.
\<close>

record GCodeFile =
  gf_id :: jsstring
  gf_fileName :: jsstring
  gf_displayName :: jsstring
  gf_gcode :: jsstring
  gf_originalZip :: "nat list"
  gf_lineCount :: nat
  gf_estimatedTime :: "jsstring option"
  copies :: int
  gf_plateNumber :: "nat option"
  gf_sourceFile :: jsstring

text \<open>The object built for one plate by \<open>processUploadedFile\<close>, given its identifier.\<close>

definition selectable_file :: "ExtractedPlates \<Rightarrow> jsstring \<Rightarrow> ParsedGCodeInfo \<Rightarrow> GCodeFile" where
  "selectable_file extracted ident plate =
     (let isMultiPlate = (length (plates extracted) > 1)
      in \<lparr>gf_id = ident,
          gf_fileName = fileName extracted,
          gf_displayName =
            (if isMultiPlate
             then fileName extracted @ [32, 8212, 32] @ str ''Plate ''
                  @ string_of_int (int (plateNumber plate))
             else fileName extracted),
          gf_gcode = gcode plate,
          gf_originalZip = originalZip extracted,
          gf_lineCount = lineCount plate,
          gf_estimatedTime = estimatedTime plate,
          copies = 1,
          gf_plateNumber = Some (plateNumber plate),
          gf_sourceFile = fileName extracted\<rparr>)"

definition processUploadedFile ::
  "(nat list \<Rightarrow> jszip option) \<Rightarrow> (nat \<Rightarrow> jsstring) \<Rightarrow> nat \<Rightarrow> File \<Rightarrow> error + (GCodeFile list \<times> nat)" where
  "processUploadedFile loadAsync generateId calls file =
     (case extractAllPlatesFromZip loadAsync file of
        Inl e \<Rightarrow> Inl e
      | Inr extracted \<Rightarrow>
          Inr (map (\<lambda>(i, plate). selectable_file extracted (generateId (calls + i)) plate)
                   (enumerate 0 (plates extracted)),
               calls + length (plates extracted)))"

text \<open>
  The loop of \<open>calculateTotalTime\<close>. \<open>if (file.estimatedTime)\<close> holds when the estimate is
  neither \<open>null\<close> nor the empty string.
\<close>

fun calculateTotalTime_loop :: "GCodeFile list \<Rightarrow> int \<times> bool \<Rightarrow> int \<times> bool" where
  "calculateTotalTime_loop [] (totalSeconds, hasAnyTime) = (totalSeconds, hasAnyTime)"
| "calculateTotalTime_loop (file # files) (totalSeconds, hasAnyTime) =
     (case gf_estimatedTime file of
        Some text \<Rightarrow>
          if text \<noteq> []
          then calculateTotalTime_loop files
                 (totalSeconds + parseTimeToSeconds text * copies file, True)
          else calculateTotalTime_loop files (totalSeconds, hasAnyTime)
      | None \<Rightarrow> calculateTotalTime_loop files (totalSeconds, hasAnyTime))"

definition calculateTotalTime :: "GCodeFile list \<Rightarrow> jsstring option" where
  "calculateTotalTime files =
     (case calculateTotalTime_loop files (0, False) of
        (totalSeconds, hasAnyTime) \<Rightarrow>
          if \<not> hasAnyTime then None else Some (formatSeconds totalSeconds))"

section \<open>The work queue (App and FileList components)\<close>

text \<open>
  The state of the application that the queue operations read and write: the queue of
  selectable files, the error banner, and the number of identifiers generated so far. The
  progress indicator is presentation only and is left out.
\<close>

record app_state =
  app_files :: "GCodeFile list"
  app_error :: "jsstring option"
  id_calls :: nat

definition initial_state :: app_state where
  "initial_state = \<lparr>app_files = [], app_error = None, id_calls = 0\<rparr>"

text \<open>
  The loop of \<open>handleFilesSelected\<close> over the selected files, with its two accumulators.
  \<open>FileProcessingError\<close> is the only error the model of \<open>processUploadedFile\<close> raises, so
  the \<open>catch\<close> always takes its first branch.
\<close>

fun handleFilesSelected_loop ::
  "(nat list \<Rightarrow> jszip option) \<Rightarrow> (nat \<Rightarrow> jsstring) \<Rightarrow> File list
    \<Rightarrow> nat \<times> GCodeFile list \<times> jsstring list \<Rightarrow> nat \<times> GCodeFile list \<times> jsstring list" where
  "handleFilesSelected_loop loadAsync generateId [] (calls, newFiles, errors) =
     (calls, newFiles, errors)"
| "handleFilesSelected_loop loadAsync generateId (file # selectedFiles) (calls, newFiles, errors) =
     (case processUploadedFile loadAsync generateId calls file of
        Inr (processedFiles, calls') \<Rightarrow>
          handleFilesSelected_loop loadAsync generateId selectedFiles
            (calls', newFiles @ processedFiles, errors)
      | Inl (FileProcessingError message) \<Rightarrow>
          handleFilesSelected_loop loadAsync generateId selectedFiles
            (calls, newFiles, errors @ [message]))"

definition handleFilesSelected ::
  "(nat list \<Rightarrow> jszip option) \<Rightarrow> (nat \<Rightarrow> jsstring) \<Rightarrow> File list \<Rightarrow> app_state \<Rightarrow> app_state" where
  "handleFilesSelected loadAsync generateId selectedFiles st =
     (case handleFilesSelected_loop loadAsync generateId selectedFiles (id_calls st, [], []) of
        (calls, newFiles, errors) \<Rightarrow>
          \<lparr>app_files = app_files st @ newFiles,
           app_error = (if length errors > 0 then Some (join (str ''\<newline>'') errors) else None),
           id_calls = calls\<rparr>)"

definition handleReorder :: "GCodeFile list \<Rightarrow> app_state \<Rightarrow> app_state" where
  "handleReorder reorderedFiles st = st\<lparr>app_files := reorderedFiles\<rparr>"

definition handleUpdateCopies :: "jsstring \<Rightarrow> int \<Rightarrow> app_state \<Rightarrow> app_state" where
  "handleUpdateCopies ident n st =
     st\<lparr>app_files := map (\<lambda>file. if gf_id file = ident then file\<lparr>copies := n\<rparr> else file)
                          (app_files st)\<rparr>"

definition handleRemove :: "jsstring \<Rightarrow> app_state \<Rightarrow> app_state" where
  "handleRemove ident st =
     st\<lparr>app_files := filter (\<lambda>file. gf_id file \<noteq> ident) (app_files st), app_error := None\<rparr>"

definition handleClearAll :: "app_state \<Rightarrow> app_state" where
  "handleClearAll st = st\<lparr>app_files := [], app_error := None\<rparr>"

text \<open>
  The callbacks of a rendered \<open>FileItem\<close>; \<open>file\<close> is the queue entry it was rendered from
  and \<open>val\<close> the text of the number input.
\<close>

definition handleCopiesChange :: "GCodeFile \<Rightarrow> jsstring \<Rightarrow> app_state \<Rightarrow> app_state" where
  "handleCopiesChange file val st =
     handleUpdateCopies (gf_id file)
       (max 1 (min 99 (case parseInt val of None \<Rightarrow> 1 | Some n \<Rightarrow> if n = 0 then 1 else n))) st"

definition incrementCopies :: "GCodeFile \<Rightarrow> app_state \<Rightarrow> app_state" where
  "incrementCopies file st =
     (if copies file < 99 then handleUpdateCopies (gf_id file) (copies file + 1) st else st)"

definition decrementCopies :: "GCodeFile \<Rightarrow> app_state \<Rightarrow> app_state" where
  "decrementCopies file st =
     (if copies file > 1 then handleUpdateCopies (gf_id file) (copies file - 1) st else st)"

text \<open>
  \<open>handleDragEnd\<close> of the \<open>FileList\<close>: the dragged entry is spliced out and put back at the
  position it was dropped on. Both indices are those of rendered entries.
\<close>

definition handleDragEnd :: "nat option \<Rightarrow> nat option \<Rightarrow> app_state \<Rightarrow> app_state" where
  "handleDragEnd dragIndex dragOverIndex st =
     (case (dragIndex, dragOverIndex) of
        (Some i, Some j) \<Rightarrow>
          if i \<noteq> j \<and> i < length (app_files st) \<and> j < length (app_files st)
          then (let draggedItem = app_files st ! i;
                    newFiles = take i (app_files st) @ drop (i + 1) (app_files st);
                    newFiles = take j newFiles @ [draggedItem] @ drop j newFiles
                in handleReorder newFiles st)
          else st
      | _ \<Rightarrow> st)"

text \<open>
  Everything a user can do to the queue. An entry is addressed by its position in the
  rendered list; a position where nothing is rendered has no control to operate.
\<close>

datatype event =
    FilesSelected "File list"
  | CopiesChange nat jsstring
  | IncrementCopies nat
  | DecrementCopies nat
  | Remove nat
  | ClearAll
  | DragEnd "nat option" "nat option"

definition step ::
  "(nat list \<Rightarrow> jszip option) \<Rightarrow> (nat \<Rightarrow> jsstring) \<Rightarrow> app_state \<Rightarrow> event \<Rightarrow> app_state" where
  "step loadAsync generateId st ev =
     (case ev of
        FilesSelected selectedFiles \<Rightarrow> handleFilesSelected loadAsync generateId selectedFiles st
      | CopiesChange i val \<Rightarrow>
          if i < length (app_files st) then handleCopiesChange (app_files st ! i) val st else st
      | IncrementCopies i \<Rightarrow>
          if i < length (app_files st) then incrementCopies (app_files st ! i) st else st
      | DecrementCopies i \<Rightarrow>
          if i < length (app_files st) then decrementCopies (app_files st ! i) st else st
      | Remove i \<Rightarrow>
          if i < length (app_files st) then handleRemove (gf_id (app_files st ! i)) st else st
      | ClearAll \<Rightarrow> handleClearAll st
      | DragEnd dragIndex dragOverIndex \<Rightarrow> handleDragEnd dragIndex dragOverIndex st)"

definition copies_in_range :: "app_state \<Rightarrow> bool" where
  "copies_in_range st = list_all (\<lambda>file. 1 \<le> copies file \<and> copies file \<le> 99) (app_files st)"

section \<open>Notions of the specification\<close>

text \<open>
  The clamp into \<open>[1, 99]\<close> that the specification asks of the copies-change operation,
  for a requested integer (\<open>None\<close> when the input holds no number).
\<close>

definition clamp_copies :: "int option \<Rightarrow> int" where
  "clamp_copies requested =
     (case requested of
        None \<Rightarrow> 1
      | Some n \<Rightarrow> if n < 1 then 1 else if 99 < n then 99 else n)"


text \<open>
  The seconds a queue entry adds to the total: the seconds of its estimate times its copy
  count when it has a non-empty estimate, nothing otherwise.
\<close>

definition estimate_seconds :: "GCodeFile \<Rightarrow> int" where
  "estimate_seconds file =
     (case gf_estimatedTime file of
        Some text \<Rightarrow> if text = [] then 0 else parseTimeToSeconds text * copies file
      | None \<Rightarrow> 0)"

text \<open>
  The estimate made of a captured value: the capture is trimmed of surrounding white
  space; a trimmed capture that is a bare integer is rendered as a duration of that many
  seconds, any other trimmed capture is the estimate itself.
\<close>

definition rendered_estimate :: "jsstring \<Rightarrow> jsstring" where
  "rendered_estimate v =
     (if trim v \<noteq> [] \<and> list_all is_digit (trim v)
      then formatSeconds (int (nat_of_digits (trim v)))
      else trim v)"

section \<open>Auxiliary notions\<close>

text \<open>What a literal character matches under the \<open>i\<close> flag, as a predicate.\<close>

definition matches_i :: "char \<Rightarrow> nat \<Rightarrow> bool" where
  "matches_i u x = (x < 128 \<and> to_upper x = to_upper (of_char u))"

text \<open>
  The unit letters of a duration. A duration as \<open>formatSeconds\<close> builds it is a list of
  tokens, each a number followed by the code of its unit letter, joined by single spaces.
\<close>

definition unit_letter :: "char \<Rightarrow> bool" where
  "unit_letter u = (u = CHR ''h'' \<or> u = CHR ''m'' \<or> u = CHR ''s'')"



text \<open>A pattern whose every match defines the group.\<close>

fun captures_group :: "regex \<Rightarrow> bool" where
  "captures_group (Group r) = True"
| "captures_group (Seq r1 r2) = (captures_group r1 \<or> captures_group r2)"
| "captures_group (Alt r1 r2) = (captures_group r1 \<and> captures_group r2)"
| "captures_group r = False"

section \<open>Example inputs\<close>

text \<open>
  An archive of the primary convention with two plates, listed out of order, next to a
  directory entry and a member that is no G-code.
\<close>

definition example_archive :: jszip where
  "example_archive =
     [(str ''Metadata/plate_2.gcode'', \<lparr>dir = False, content = str ''G28\<newline>G1 X5\<newline>''\<rparr>),
      (str ''Metadata/'', \<lparr>dir = True, content = []\<rparr>),
      (str ''Metadata/plate_1.gcode'', \<lparr>dir = False, content = str ''G28''\<rparr>),
      (str ''3D/3dmodel.model'', \<lparr>dir = False, content = str ''<model/>''\<rparr>)]"

definition example_file :: File where
  "example_file = \<lparr>file_name = str ''job.gcode.3mf'', file_arrayBuffer = Some [80, 75, 3, 4]\<rparr>"


text \<open>
  Archives without any of the sixteen conventional members: two members \<open>b.gcode\<close> and
  \<open>a.gcode\<close> with given texts, in both directory orders, and two members that look like
  plates 18 and 17.
\<close>

definition fallback_archive :: "jsstring \<Rightarrow> jsstring \<Rightarrow> jszip" where
  "fallback_archive text_b text_a =
     [(str ''b.gcode'', \<lparr>dir = False, content = text_b\<rparr>),
      (str ''a.gcode'', \<lparr>dir = False, content = text_a\<rparr>)]"

definition fallback_archive_swapped :: "jsstring \<Rightarrow> jsstring \<Rightarrow> jszip" where
  "fallback_archive_swapped text_b text_a =
     [(str ''a.gcode'', \<lparr>dir = False, content = text_a\<rparr>),
      (str ''b.gcode'', \<lparr>dir = False, content = text_b\<rparr>)]"

definition example_fallback_file :: File where
  "example_fallback_file = \<lparr>file_name = str ''odd.3mf'', file_arrayBuffer = Some [80, 75, 5, 6]\<rparr>"

definition high_plates_archive :: "jsstring \<Rightarrow> jsstring \<Rightarrow> jszip" where
  "high_plates_archive text_18 text_17 =
     [(str ''Metadata/plate_18.gcode'', \<lparr>dir = False, content = text_18\<rparr>),
      (str ''Metadata/plate_17.gcode'', \<lparr>dir = False, content = text_17\<rparr>)]"

text \<open>A loader that accepts the bytes of \<open>example_file\<close> only, and an upload that is no archive.\<close>

definition example_loadAsync :: "nat list \<Rightarrow> jszip option" where
  "example_loadAsync bytes = (if bytes = [80, 75, 3, 4] then Some example_archive else None)"


text \<open>A queue holding one entry with five copies.\<close>

definition example_queue_file :: GCodeFile where
  "example_queue_file =
     \<lparr>gf_id = str ''1700000000000-k3j9x2a'', gf_fileName = str ''job.gcode.3mf'',
      gf_displayName = str ''job.gcode.3mf'', gf_gcode = str ''G28'',
      gf_originalZip = [80, 75, 3, 4], gf_lineCount = 1, gf_estimatedTime = None, copies = 5,
      gf_plateNumber = Some 1, gf_sourceFile = str ''job.gcode.3mf''\<rparr>"

definition example_state :: app_state where
  "example_state = \<lparr>app_files = [example_queue_file], app_error = None, id_calls = 1\<rparr>"

text \<open>The example queue entry with a given estimate and copy count.\<close>

definition example_timed_file :: "jsstring option \<Rightarrow> int \<Rightarrow> GCodeFile" where
  "example_timed_file estimate n = example_queue_file\<lparr>gf_estimatedTime := estimate, copies := n\<rparr>"

text \<open>G-code whose first line matches the second pattern and whose second line matches the first.\<close>

definition example_gcode :: jsstring where
  "example_gcode = str '';TIME:100\<newline>; estimated printing time = 1h 2m\<newline>''"

section \<open>Extraction: the conventional plate members\<close>

lemma standard_plates_loop_closed:
  "plateNum \<le> 17 \<Longrightarrow>
   standard_plates_loop jz plateNum ps =
     ps @ map (\<lambda>n. plate_record (content (the (zip_file jz (plate_path n)))) n)
            (filter (\<lambda>n. zip_file jz (plate_path n) \<noteq> None) [plateNum..<17])"
proof (induction jz plateNum ps rule: standard_plates_loop.induct)
  case (1 jz plateNum ps)
  show ?case
  proof (cases "plateNum \<le> 16")
    case True
    then have upt: "[plateNum..<17] = plateNum # [plateNum + 1..<17]"
      by (simp add: upt_conv_Cons)
    show ?thesis
    proof (cases "zip_file jz (plate_path plateNum)")
      case None
      with True 1 upt show ?thesis
        by (subst standard_plates_loop.simps) simp
    next
      case (Some obj)
      with True 1 upt show ?thesis
        by (subst standard_plates_loop.simps) simp
    qed
  next
    case False
    with 1(3) have "plateNum = 17" by simp
    then show ?thesis
      by (subst standard_plates_loop.simps) simp
  qed
qed

lemma filter_le_upt: "k \<le> 16 \<Longrightarrow> filter (\<lambda>n. n \<le> k) [1..<17] = [1..<Suc k]"
  by (rule sorted_distinct_set_unique) (auto simp del: upt_Suc intro: sorted_wrt_filter)

lemma extract_loaded:
  assumes "file_arrayBuffer file = Some arrayBuffer" and "loadAsync arrayBuffer = Some jz"
  shows "extractAllPlatesFromZip loadAsync file =
    (let ps = standard_plates_loop jz 1 [];
         ps = (if ps = [] then fallback_loop jz (gcode_member_names jz) 0 ps else ps)
     in if ps = []
        then Inl (FileProcessingError (no_gcode_message (file_name file)))
        else Inr \<lparr>plates = ps, originalZip = arrayBuffer, fileName = file_name file\<rparr>)"
  using assms by (simp add: extractAllPlatesFromZip_def Let_def)

lemma message_names_file:
  "\<exists>before after. invalid_archive_message name = before @ name @ after"
  unfolding invalid_archive_message_def by blast

text \<open>
  Claim C5. When the bytes of the upload cannot be read or cannot be loaded as a ZIP
  archive, extraction fails with the \<open>FileProcessingError\<close> whose message says that the
  file is not a valid ZIP archive; the message contains the name of the file, and no list of
  plates is returned.
\<close>

theorem extract_invalid_archive:
  assumes "\<forall>arrayBuffer. file_arrayBuffer file = Some arrayBuffer \<longrightarrow> loadAsync arrayBuffer = None"
  shows "extractAllPlatesFromZip loadAsync file =
           Inl (FileProcessingError (invalid_archive_message (file_name file)))
         \<and> (\<exists>before after. invalid_archive_message (file_name file) = before @ file_name file @ after)
         \<and> (\<forall>extracted. extractAllPlatesFromZip loadAsync file \<noteq> Inr extracted)"
proof -
  have "Option.bind (file_arrayBuffer file)
          (\<lambda>arrayBuffer. map_option (Pair arrayBuffer) (loadAsync arrayBuffer)) = None"
    using assms by (cases "file_arrayBuffer file") simp_all
  then show ?thesis
    using message_names_file by (simp add: extractAllPlatesFromZip_def)
qed

theorem extract_invalid_archive_witness:
  "extractAllPlatesFromZip (\<lambda>bytes. None) \<lparr>file_name = str ''notes.txt'', file_arrayBuffer = Some [104, 105]\<rparr> =
     Inl (FileProcessingError (str ''\"notes.txt\" is not a valid ZIP archive. Make sure you're uploading a .gcode.3mf file.''))"
  using extract_invalid_archive [of "\<lparr>file_name = str ''notes.txt'', file_arrayBuffer = Some [104, 105]\<rparr>" "\<lambda>bytes. None"]
  by (simp add: str_def invalid_archive_message_def)

text \<open>
  Claim C1. For an archive whose members \<open>Metadata/plate_n.gcode\<close>, among \<open>n = 1..16\<close>, are
  exactly those with \<open>n \<le> k\<close>, where \<open>1 \<le> k \<le> 16\<close>, extraction succeeds with exactly \<open>k\<close>
  plate records, in ascending order of plate index; the record at position \<open>n\<close> is built from
  the member \<open>Metadata/plate_n.gcode\<close> and has plate index \<open>n\<close>.
\<close>

theorem extract_primary_convention:
  assumes "file_arrayBuffer file = Some arrayBuffer" and "loadAsync arrayBuffer = Some jz"
    and "1 \<le> k" and "k \<le> 16"
    and "\<forall>n\<in>{1..16}. (zip_file jz (plate_path n) \<noteq> None) = (n \<le> k)"
  shows "\<exists>extracted. extractAllPlatesFromZip loadAsync file = Inr extracted
           \<and> length (plates extracted) = k
           \<and> map plateNumber (plates extracted) = [1..<Suc k]
           \<and> (\<forall>n\<in>{1..k}. \<exists>member. zip_file jz (plate_path n) = Some member
                  \<and> plates extracted ! (n - 1) = plate_record (content member) n)"
proof -
  let ?f = "\<lambda>n. plate_record (content (the (zip_file jz (plate_path n)))) n"
  have "filter (\<lambda>n. zip_file jz (plate_path n) \<noteq> None) [1..<17] = filter (\<lambda>n. n \<le> k) [1..<17]"
    using assms(5) by (intro filter_cong) auto
  also have "\<dots> = [1..<Suc k]"
    by (rule filter_le_upt [OF \<open>k \<le> 16\<close>])
  finally have present: "filter (\<lambda>n. zip_file jz (plate_path n) \<noteq> None) [1..<17] = [1..<Suc k]" .
  have "standard_plates_loop jz 1 [] =
          [] @ map ?f (filter (\<lambda>n. zip_file jz (plate_path n) \<noteq> None) [1..<17])"
    by (rule standard_plates_loop_closed) simp
  then have loop: "standard_plates_loop jz 1 [] = map ?f [1..<Suc k]"
    by (simp only: present append_Nil)
  have ne: "map ?f [1..<Suc k] \<noteq> []"
    using \<open>1 \<le> k\<close> by simp
  have res: "extractAllPlatesFromZip loadAsync file =
      Inr \<lparr>plates = map ?f [1..<Suc k], originalZip = arrayBuffer, fileName = file_name file\<rparr>"
    unfolding extract_loaded [of "file" arrayBuffer loadAsync jz, OF assms(1,2)] loop Let_def
    using ne by (simp del: upt_Suc)
  have nums: "map plateNumber (map ?f [1..<Suc k]) = [1..<Suc k]"
    by (simp add: plate_record_def comp_def del: upt_Suc)
  have each: "\<exists>member. zip_file jz (plate_path n) = Some member
      \<and> map ?f [1..<Suc k] ! (n - 1) = plate_record (content member) n" if "n \<in> {1..k}" for n
  proof -
    from that assms(4,5) have "zip_file jz (plate_path n) \<noteq> None" by auto
    then obtain member where m: "zip_file jz (plate_path n) = Some member" by auto
    from that have "[1..<Suc k] ! (n - 1) = n" and "n - 1 < length [1..<Suc k]"
      by (auto simp del: upt_Suc)
    then have "map ?f [1..<Suc k] ! (n - 1) = ?f n"
      by (simp del: upt_Suc)
    with m show ?thesis by simp
  qed
  show ?thesis
    using res nums each by (simp del: upt_Suc)
qed

lemma ball_1_16:
  "(\<forall>n\<in>{1..16::nat}. P n) =
     (P 1 \<and> P 2 \<and> P 3 \<and> P 4 \<and> P 5 \<and> P 6 \<and> P 7 \<and> P 8 \<and> P 9 \<and> P 10 \<and> P 11 \<and> P 12
      \<and> P 13 \<and> P 14 \<and> P 15 \<and> P 16)"
proof -
  have "{1..16::nat} = {1, 2, 3, 4, 5, 6, 7, 8, 9, 10, 11, 12, 13, 14, 15, 16}"
    by (auto; arith)
  then show ?thesis by simp
qed

lemma example_archive_members:
  "\<forall>n\<in>{1..16}. (zip_file example_archive (plate_path n) \<noteq> None) = (n \<le> 2)"
  unfolding ball_1_16
  by (simp add: example_archive_def zip_file_def plate_path_def string_of_int_def
      digits_of_nat.simps str_def)

theorem extract_primary_convention_witness:
  "\<exists>extracted. extractAllPlatesFromZip (\<lambda>bytes. Some example_archive) example_file = Inr extracted
     \<and> length (plates extracted) = 2
     \<and> map plateNumber (plates extracted) = [1, 2]"
proof -
  have a: "file_arrayBuffer example_file = Some [80, 75, 3, 4]"
    by (simp add: example_file_def)
  have b: "1 \<le> (2::nat)" "(2::nat) \<le> 16"
    by simp_all
  have "[1..<Suc 2] = [1, 2::nat]"
    by (simp add: upt_rec)
  with extract_primary_convention [of example_file "[80, 75, 3, 4]" "\<lambda>bytes. Some example_archive"
        example_archive 2, OF a refl b example_archive_members]
  show ?thesis by auto
qed

lemma fallback_loop_closed:
  "fallback_loop jz gcodeFiles i ps =
     ps @ map (\<lambda>j. plate_record (content (the (zip_file jz (gcodeFiles ! j)))) (j + 1))
            (filter (\<lambda>j. case zip_file jz (gcodeFiles ! j) of
                            Some member \<Rightarrow> content member \<noteq> [] | None \<Rightarrow> False)
                    [i..<length gcodeFiles])"
proof (induction jz gcodeFiles i ps rule: fallback_loop.induct)
  case (1 jz gcodeFiles i ps)
  show ?case
  proof (cases "i < length gcodeFiles")
    case True
    then have upt: "[i..<length gcodeFiles] = i # [i + 1..<length gcodeFiles]"
      by (simp add: upt_conv_Cons)
    show ?thesis
    proof (cases "zip_file jz (gcodeFiles ! i)")
      case None
      with True 1 upt show ?thesis
        by (subst fallback_loop.simps) simp
    next
      case (Some member)
      with True 1 upt show ?thesis
        by (subst fallback_loop.simps) simp
    qed
  next
    case False
    then show ?thesis
      by (subst fallback_loop.simps) simp
  qed
qed

lemma split_not_Nil: "split sep s \<noteq> []"
  by (induction s) (auto split: list.splits)

lemma length_split: "length (split sep s) = Suc (count_list s sep)"
  by (induction s) (auto split: list.splits simp: split_not_Nil)

lemma split_no_sep: "sep \<notin> set seg \<Longrightarrow> split sep (seg @ sep # rest) = seg # split sep rest"
  by (induction seg) (auto split: list.splits)

lemma split_no_sep_end: "sep \<notin> set seg \<Longrightarrow> split sep seg = [seg]"
  by (induction seg) (auto split: list.splits)

lemma join_Cons2: "parts \<noteq> [] \<Longrightarrow> join sep (part # parts) = part @ sep @ join sep parts"
  by (cases parts) simp_all

lemma split_join:
  "segs \<noteq> [] \<Longrightarrow> \<forall>seg\<in>set segs. sep \<notin> set seg \<Longrightarrow> split sep (join [sep] segs) = segs"
proof (induction segs rule: list_nonempty_induct)
  case (single seg)
  then show ?case by (simp add: split_no_sep_end)
next
  case (cons seg segs)
  then show ?case by (simp add: join_Cons2 split_no_sep)
qed

lemma extracted_plates_are_records:
  assumes "extractAllPlatesFromZip loadAsync file = Inr extracted"
    and "p \<in> set (plates extracted)"
  shows "\<exists>gcodeContent plateNum. p = plate_record gcodeContent plateNum"
proof -
  from assms(1) obtain arrayBuffer jz where
    ld: "file_arrayBuffer file = Some arrayBuffer" "loadAsync arrayBuffer = Some jz"
    by (auto simp: extractAllPlatesFromZip_def split: option.splits Option.bind_splits)
  have "plates extracted = standard_plates_loop jz 1 []
      \<or> plates extracted = fallback_loop jz (gcode_member_names jz) 0 []"
    using assms(1) unfolding extract_loaded [of "file" arrayBuffer loadAsync jz, OF ld] Let_def
    by (auto split: if_splits)
  moreover have "standard_plates_loop jz 1 [] =
      [] @ map (\<lambda>n. plate_record (content (the (zip_file jz (plate_path n)))) n)
            (filter (\<lambda>n. zip_file jz (plate_path n) \<noteq> None) [1..<17])"
    by (rule standard_plates_loop_closed) simp
  ultimately show ?thesis
    using assms(2) unfolding fallback_loop_closed by (auto; blast)
qed

text \<open>
  Claim C4. The line count stored for every extracted plate is the number of segments that
  splitting the payload at line breaks gives, that is one more than the number of line
  breaks. A payload made of \<open>N\<close> segments counts as \<open>N\<close>, also when its last segment is
  empty because the payload ends with a line break.
\<close>

theorem line_count_is_split_count:
  assumes "extractAllPlatesFromZip loadAsync file = Inr extracted"
    and "p \<in> set (plates extracted)"
  shows "lineCount p = length (split 10 (gcode p))
       \<and> lineCount p = Suc (count_list (gcode p) 10)
       \<and> (\<forall>segs. segs \<noteq> [] \<and> (\<forall>seg\<in>set segs. 10 \<notin> set seg) \<and> gcode p = join [10] segs
             \<longrightarrow> lineCount p = length segs)"
proof -
  from extracted_plates_are_records [OF assms] obtain gcodeContent plateNum
    where p: "p = plate_record gcodeContent plateNum" by blast
  have "lineCount p = length (split 10 (gcode p))"
    by (simp add: p plate_record_def)
  moreover have "length (split 10 (join [10] segs)) = length segs"
    if "segs \<noteq> []" and "\<forall>seg\<in>set segs. (10::nat) \<notin> set seg" for segs
    using that by (simp add: split_join)
  ultimately show ?thesis
    using length_split [of 10 "gcode p"] by auto
qed


lemma example_extraction:
  assumes "loadAsync [80, 75, 3, 4] = Some example_archive"
  shows "extractAllPlatesFromZip loadAsync example_file =
     Inr \<lparr>plates = [plate_record (str ''G28'') 1, plate_record (str ''G28\<newline>G1 X5\<newline>'') 2],
          originalZip = [80, 75, 3, 4], fileName = str ''job.gcode.3mf''\<rparr>"
proof -
  have "standard_plates_loop example_archive 1 [] =
      [plate_record (str ''G28'') (Suc 0), plate_record (str ''G28\<newline>G1 X5\<newline>'') (Suc (Suc 0))]"
    by (simp add: standard_plates_loop.simps example_archive_def zip_file_def plate_path_def
        string_of_int_def digits_of_nat.simps str_def)
  moreover have "Suc (Suc 0) = 2"
    by simp
  ultimately have "standard_plates_loop example_archive 1 [] =
      [plate_record (str ''G28'') 1, plate_record (str ''G28\<newline>G1 X5\<newline>'') 2]"
    by simp
  then show ?thesis
    using assms by (simp add: extractAllPlatesFromZip_def example_file_def)
qed


theorem line_count_is_split_count_witness:
  "lineCount (plate_record (str ''G28\<newline>G1 X5\<newline>'') 2) = 3
   \<and> str ''G28\<newline>G1 X5\<newline>'' = join [10] [str ''G28'', str ''G1 X5'', []]
   \<and> split 10 (str ''G28\<newline>G1 X5\<newline>'') = [str ''G28'', str ''G1 X5'', []]"
proof -
  let ?p = "plate_record (str ''G28\<newline>G1 X5\<newline>'') 2"
  let ?segs = "[str ''G28'', str ''G1 X5'', []]"
  have member: "?p \<in> set (plates \<lparr>plates = [plate_record (str ''G28'') 1, ?p],
          originalZip = [80, 75, 3, 4], fileName = str ''job.gcode.3mf''\<rparr>)"
    by simp
  have extraction: "extractAllPlatesFromZip example_loadAsync example_file =
      Inr \<lparr>plates = [plate_record (str ''G28'') 1, ?p],
          originalZip = [80, 75, 3, 4], fileName = str ''job.gcode.3mf''\<rparr>"
    by (rule example_extraction) (simp add: example_loadAsync_def)
  have segs: "?segs \<noteq> []" "\<forall>seg\<in>set ?segs. 10 \<notin> set seg"
    "gcode ?p = join [10] ?segs"
    by (simp_all add: str_def plate_record_def)
  from line_count_is_split_count [OF extraction member] segs
  have "lineCount ?p = length (split 10 (gcode ?p))" and "lineCount ?p = length ?segs"
    by blast+
  moreover have "split 10 (str ''G28\<newline>G1 X5\<newline>'') = ?segs"
    by (simp add: str_def)
  ultimately show ?thesis
    using segs(3) by (simp add: plate_record_def)
qed

section \<open>Extraction: the fallback scan\<close>

lemma plate_path_endsWith: "endsWith (plate_path n) (str ''.gcode'')"
  by (simp add: endsWith_def plate_path_def str_def)

lemma gcode_member_names_set:
  "set (gcode_member_names jz) =
     {name \<in> fst ` set jz. endsWith name (str ''.gcode'')
                            \<and> (\<exists>member. map_of jz name = Some member \<and> \<not> dir member)}"
  by (auto simp: gcode_member_names_def split: option.splits)

lemma gcode_member_names_sorted: "sorted (gcode_member_names jz)"
  by (simp add: gcode_member_names_def)

lemma gcode_member_names_distinct:
  "distinct (map fst jz) \<Longrightarrow> distinct (gcode_member_names jz)"
  by (simp add: gcode_member_names_def distinct_map_filter)

lemma gcode_member_names_zip_file:
  "name \<in> set (gcode_member_names jz) \<longleftrightarrow>
     endsWith name (str ''.gcode'') \<and> zip_file jz name \<noteq> None"
proof -
  have "name \<in> fst ` set jz" if "map_of jz name = Some member" for member
    using map_of_SomeD [OF that] by force
  then show ?thesis
    by (auto simp: gcode_member_names_set zip_file_def split: option.splits if_splits)
qed

lemma standard_plates_loop_none:
  assumes "\<forall>n\<in>{1..16}. zip_file jz (plate_path n) = None"
  shows "standard_plates_loop jz 1 [] = []"
proof -
  have "filter (\<lambda>n. zip_file jz (plate_path n) \<noteq> None) [1..<17] = []"
    using assms by (auto simp: filter_empty_conv)
  moreover have "standard_plates_loop jz 1 [] =
      [] @ map (\<lambda>n. plate_record (content (the (zip_file jz (plate_path n)))) n)
            (filter (\<lambda>n. zip_file jz (plate_path n) \<noteq> None) [1..<17])"
    by (rule standard_plates_loop_closed) simp
  ultimately show ?thesis by simp
qed

lemma extract_fallback_closed:
  assumes "file_arrayBuffer file = Some arrayBuffer" and "loadAsync arrayBuffer = Some jz"
    and "\<forall>n\<in>{1..16}. zip_file jz (plate_path n) = None"
  shows "extractAllPlatesFromZip loadAsync file =
     (let names = gcode_member_names jz;
          ps = map (\<lambda>i. plate_record (content (the (zip_file jz (names ! i)))) (i + 1))
                   (filter (\<lambda>i. content (the (zip_file jz (names ! i))) \<noteq> []) [0..<length names])
      in if ps = [] then Inl (FileProcessingError (no_gcode_message (file_name file)))
         else Inr \<lparr>plates = ps, originalZip = arrayBuffer, fileName = file_name file\<rparr>)"
proof -
  let ?names = "gcode_member_names jz"
  have "filter (\<lambda>j. case zip_file jz (?names ! j) of Some member \<Rightarrow> content member \<noteq> [] | None \<Rightarrow> False)
          [0..<length ?names]
        = filter (\<lambda>i. content (the (zip_file jz (?names ! i))) \<noteq> []) [0..<length ?names]"
  proof (rule filter_cong [OF refl])
    fix i assume "i \<in> set [0..<length ?names]"
    then have "?names ! i \<in> set ?names" by simp
    then have "zip_file jz (?names ! i) \<noteq> None"
      by (simp add: gcode_member_names_zip_file)
    then show "(case zip_file jz (?names ! i) of Some member \<Rightarrow> content member \<noteq> [] | None \<Rightarrow> False)
        = (content (the (zip_file jz (?names ! i))) \<noteq> [])"
      by auto
  qed
  then have "fallback_loop jz ?names 0 [] =
      map (\<lambda>i. plate_record (content (the (zip_file jz (?names ! i)))) (i + 1))
          (filter (\<lambda>i. content (the (zip_file jz (?names ! i))) \<noteq> []) [0..<length ?names])"
    by (simp add: fallback_loop_closed)
  then show ?thesis
    unfolding extract_loaded [of "file" arrayBuffer loadAsync jz, OF assms(1,2)]
      standard_plates_loop_none [OF assms(3)] Let_def
    by simp
qed


lemma fallback_archive_no_plates:
  "\<forall>n\<in>{1..16}. zip_file (fallback_archive text_b text_a) (plate_path n) = None"
  "\<forall>n\<in>{1..16}. zip_file (fallback_archive_swapped text_b text_a) (plate_path n) = None"
  unfolding ball_1_16
  by (simp_all add: fallback_archive_def fallback_archive_swapped_def zip_file_def plate_path_def
      string_of_int_def digits_of_nat.simps str_def)

lemma fallback_archive_names:
  "gcode_member_names (fallback_archive text_b text_a) = [str ''a.gcode'', str ''b.gcode'']"
  "gcode_member_names (fallback_archive_swapped text_b text_a) = [str ''a.gcode'', str ''b.gcode'']"
  by (simp_all add: gcode_member_names_def fallback_archive_def fallback_archive_swapped_def
      endsWith_def str_def)

lemma fallback_archive_members:
  "zip_file (fallback_archive text_b text_a) (str ''a.gcode'') = Some \<lparr>dir = False, content = text_a\<rparr>"
  "zip_file (fallback_archive text_b text_a) (str ''b.gcode'') = Some \<lparr>dir = False, content = text_b\<rparr>"
  "zip_file (fallback_archive_swapped text_b text_a) (str ''a.gcode'') = Some \<lparr>dir = False, content = text_a\<rparr>"
  "zip_file (fallback_archive_swapped text_b text_a) (str ''b.gcode'') = Some \<lparr>dir = False, content = text_b\<rparr>"
  by (simp_all add: fallback_archive_def fallback_archive_swapped_def zip_file_def str_def)

lemma upt_0_2: "[0..<2] = [0, Suc 0]"
  by (simp add: upt_rec)

lemma extract_fallback_archive:
  assumes "file_arrayBuffer file = Some arrayBuffer"
    and "loadAsync arrayBuffer = Some (fallback_archive text_b text_a)
         \<or> loadAsync arrayBuffer = Some (fallback_archive_swapped text_b text_a)"
  shows "extractAllPlatesFromZip loadAsync file =
     (if text_a = [] \<and> text_b = [] then Inl (FileProcessingError (no_gcode_message (file_name file)))
      else Inr \<lparr>plates = (if text_a = [] then [] else [plate_record text_a 1])
                         @ (if text_b = [] then [] else [plate_record text_b 2]),
                originalZip = arrayBuffer, fileName = file_name file\<rparr>)"
proof -
  have two: "Suc (Suc 0) = 2" by simp
  from assms(2) show ?thesis
  proof
    assume l: "loadAsync arrayBuffer = Some (fallback_archive text_b text_a)"
    show ?thesis
      unfolding extract_fallback_closed [of "file" arrayBuffer loadAsync, OF assms(1) l
          fallback_archive_no_plates(1)] fallback_archive_names Let_def
      by (simp add: upt_0_2 fallback_archive_members two)
  next
    assume l: "loadAsync arrayBuffer = Some (fallback_archive_swapped text_b text_a)"
    show ?thesis
      unfolding extract_fallback_closed [of "file" arrayBuffer loadAsync, OF assms(1) l
          fallback_archive_no_plates(2)] fallback_archive_names Let_def
      by (simp add: upt_0_2 fallback_archive_members two)
  qed
qed

text \<open>
  The fallback scan skips a member whose text is empty, and the position of the skipped
  member is still counted: of the two matching members \<open>a.gcode\<close> (empty) and \<open>b.gcode\<close>,
  only \<open>b.gcode\<close> gives a plate, and its plate index is 2.
\<close>

theorem fallback_one_plate_per_member_counterexample:
  "gcode_member_names (fallback_archive (str ''G1 X1'') []) = [str ''a.gcode'', str ''b.gcode'']
   \<and> extractAllPlatesFromZip (\<lambda>bytes. Some (fallback_archive (str ''G1 X1'') [])) example_fallback_file =
       Inr \<lparr>plates = [plate_record (str ''G1 X1'') 2],
            originalZip = [80, 75, 5, 6], fileName = str ''odd.3mf''\<rparr>"
proof -
  have "file_arrayBuffer example_fallback_file = Some [80, 75, 5, 6]"
    by (simp add: example_fallback_file_def)
  from extract_fallback_archive [of example_fallback_file "[80, 75, 5, 6]"
      "\<lambda>bytes. Some (fallback_archive (str ''G1 X1'') [])" "str ''G1 X1''" "[]", OF this]
  show ?thesis
    by (simp add: fallback_archive_names example_fallback_file_def str_def)
qed

text \<open>
  Claim C2, amended. For an archive with none of the sixteen conventional members, the
  names kept are those of the non-directory members ending in \<open>.gcode\<close>, in lexicographic
  order. Extraction returns one plate for each kept member whose text is not empty, in that
  order, with the 1-based position of the member among the kept names as plate index, and
  fails when no kept member has text. So when every kept member has text, there is one
  plate per kept member, with plate indices 1, 2, ... in order; for members \<open>b.gcode\<close> and
  \<open>a.gcode\<close> with text, the plate of \<open>a.gcode\<close> comes first, whatever their order in the
  archive directory.
\<close>

theorem extract_fallback_sorted:
  assumes "file_arrayBuffer file = Some arrayBuffer" and "loadAsync arrayBuffer = Some jz"
    and "\<forall>n\<in>{1..16}. zip_file jz (plate_path n) = None"
  shows "set (gcode_member_names jz) = {name. endsWith name (str ''.gcode'') \<and> zip_file jz name \<noteq> None}
    \<and> sorted (gcode_member_names jz)
    \<and> extractAllPlatesFromZip loadAsync file =
        (let names = gcode_member_names jz;
             ps = map (\<lambda>i. plate_record (content (the (zip_file jz (names ! i)))) (i + 1))
                      (filter (\<lambda>i. content (the (zip_file jz (names ! i))) \<noteq> []) [0..<length names])
         in if ps = [] then Inl (FileProcessingError (no_gcode_message (file_name file)))
            else Inr \<lparr>plates = ps, originalZip = arrayBuffer, fileName = file_name file\<rparr>)
    \<and> (gcode_member_names jz \<noteq> []
        \<and> (\<forall>name\<in>set (gcode_member_names jz). content (the (zip_file jz name)) \<noteq> [])
        \<longrightarrow> extractAllPlatesFromZip loadAsync file =
             Inr \<lparr>plates = map (\<lambda>i. plate_record (content (the (zip_file jz (gcode_member_names jz ! i)))) (i + 1))
                               [0..<length (gcode_member_names jz)],
                  originalZip = arrayBuffer, fileName = file_name file\<rparr>)
    \<and> (text_a \<noteq> [] \<and> text_b \<noteq> []
        \<and> (jz = fallback_archive text_b text_a \<or> jz = fallback_archive_swapped text_b text_a)
        \<longrightarrow> extractAllPlatesFromZip loadAsync file =
             Inr \<lparr>plates = [plate_record text_a 1, plate_record text_b 2],
                  originalZip = arrayBuffer, fileName = file_name file\<rparr>)"
proof -
  let ?names = "gcode_member_names jz"
  have a: "set ?names = {name. endsWith name (str ''.gcode'') \<and> zip_file jz name \<noteq> None}"
    using gcode_member_names_zip_file [of _ jz] by blast
  note c = extract_fallback_closed [of "file" arrayBuffer loadAsync jz, OF assms]
  have d: "extractAllPlatesFromZip loadAsync file =
             Inr \<lparr>plates = map (\<lambda>i. plate_record (content (the (zip_file jz (?names ! i)))) (i + 1))
                               [0..<length ?names],
                  originalZip = arrayBuffer, fileName = file_name file\<rparr>"
    if "?names \<noteq> []" and "\<forall>name\<in>set ?names. content (the (zip_file jz name)) \<noteq> []"
  proof -
    have "filter (\<lambda>i. content (the (zip_file jz (?names ! i))) \<noteq> []) [0..<length ?names]
        = [0..<length ?names]"
      using that(2) by (simp add: filter_id_conv)
    then show ?thesis
      unfolding c Let_def using that(1) by simp
  qed
  have e: "extractAllPlatesFromZip loadAsync file =
             Inr \<lparr>plates = [plate_record text_a 1, plate_record text_b 2],
                  originalZip = arrayBuffer, fileName = file_name file\<rparr>"
    if "text_a \<noteq> []" "text_b \<noteq> []"
      "jz = fallback_archive text_b text_a \<or> jz = fallback_archive_swapped text_b text_a"
    using extract_fallback_archive [of "file" arrayBuffer loadAsync text_b text_a] assms(1,2) that
    by auto
  show ?thesis
    using a gcode_member_names_sorted [of jz] c d e by blast
qed


theorem extract_fallback_sorted_witness:
  "extractAllPlatesFromZip (\<lambda>bytes. Some (fallback_archive (str ''G1 X1'') (str ''G28''))) example_fallback_file =
     Inr \<lparr>plates = [plate_record (str ''G28'') 1, plate_record (str ''G1 X1'') 2],
          originalZip = [80, 75, 5, 6], fileName = str ''odd.3mf''\<rparr>"
proof -
  have a: "file_arrayBuffer example_fallback_file = Some [80, 75, 5, 6]"
    by (simp add: example_fallback_file_def)
  have b: "str ''G28'' \<noteq> []" "str ''G1 X1'' \<noteq> []"
    by (simp_all add: str_def)
  from extract_fallback_sorted [of example_fallback_file "[80, 75, 5, 6]"
      "\<lambda>bytes. Some (fallback_archive (str ''G1 X1'') (str ''G28''))"
      "fallback_archive (str ''G1 X1'') (str ''G28'')" "str ''G28''" "str ''G1 X1''",
      OF a refl fallback_archive_no_plates(1)] b
  have "extractAllPlatesFromZip (\<lambda>bytes. Some (fallback_archive (str ''G1 X1'') (str ''G28''))) example_fallback_file =
     Inr \<lparr>plates = [plate_record (str ''G28'') 1, plate_record (str ''G1 X1'') 2],
          originalZip = [80, 75, 5, 6], fileName = file_name example_fallback_file\<rparr>"
    by blast
  then show ?thesis
    by (simp add: example_fallback_file_def)
qed

lemma high_plates_archive_no_plates:
  "\<forall>n\<in>{1..16}. zip_file (high_plates_archive text_18 text_17) (plate_path n) = None"
  unfolding ball_1_16
  by (simp add: high_plates_archive_def zip_file_def plate_path_def
      string_of_int_def digits_of_nat.simps str_def)

lemma high_plates_archive_names:
  "gcode_member_names (high_plates_archive text_18 text_17) =
     [str ''Metadata/plate_17.gcode'', str ''Metadata/plate_18.gcode'']"
  by (simp add: gcode_member_names_def high_plates_archive_def endsWith_def str_def)

lemma high_plates_archive_members:
  "zip_file (high_plates_archive text_18 text_17) (str ''Metadata/plate_17.gcode'')
     = Some \<lparr>dir = False, content = text_17\<rparr>"
  "zip_file (high_plates_archive text_18 text_17) (str ''Metadata/plate_18.gcode'')
     = Some \<lparr>dir = False, content = text_18\<rparr>"
  by (simp_all add: high_plates_archive_def zip_file_def str_def)

lemma plate_path_17_18:
  "plate_path 17 = str ''Metadata/plate_17.gcode''" "plate_path 18 = str ''Metadata/plate_18.gcode''"
  by (simp_all add: plate_path_def string_of_int_def digits_of_nat.simps str_def)

text \<open>
  An archive whose only G-code members look like plates 17 and 18 and are empty: the
  fallback scan finds the names, skips both members, and extraction fails.
\<close>

theorem high_plate_never_fails_counterexample:
  "zip_file (high_plates_archive [] []) (plate_path 17) = Some \<lparr>dir = False, content = []\<rparr>
   \<and> extractAllPlatesFromZip (\<lambda>bytes. Some (high_plates_archive [] [])) example_fallback_file =
       Inl (FileProcessingError (no_gcode_message (str ''odd.3mf'')))"
proof -
  have a: "file_arrayBuffer example_fallback_file = Some [80, 75, 5, 6]"
    by (simp add: example_fallback_file_def)
  show ?thesis
    unfolding extract_fallback_closed [of example_fallback_file "[80, 75, 5, 6]"
        "\<lambda>bytes. Some (high_plates_archive [] [])" "high_plates_archive [] []",
        OF a refl high_plates_archive_no_plates] high_plates_archive_names Let_def plate_path_17_18
    by (simp add: upt_0_2 high_plates_archive_members example_fallback_file_def)
qed

lemma in_set_not_Nil: "x \<in> set xs \<Longrightarrow> xs \<noteq> []"
  by auto

text \<open>
  Claim C10, amended. For an archive with none of the sixteen conventional members and
  a member \<open>Metadata/plate_n.gcode\<close>, \<open>n > 16\<close>, whose text is not empty, extraction does
  not fail: the member is among the names kept by the fallback scan, and the record made
  from it has as plate index its 1-based position in the lexicographic order of the kept
  names (the only such position when the member names are distinct), not \<open>n\<close>.
\<close>

theorem high_plate_found_by_fallback:
  assumes "file_arrayBuffer file = Some arrayBuffer" and "loadAsync arrayBuffer = Some jz"
    and "\<forall>m\<in>{1..16}. zip_file jz (plate_path m) = None"
    and "16 < n" and "zip_file jz (plate_path n) = Some member" and "content member \<noteq> []"
  shows "\<exists>extracted i. extractAllPlatesFromZip loadAsync file = Inr extracted
           \<and> sorted (gcode_member_names jz)
           \<and> i < length (gcode_member_names jz)
           \<and> gcode_member_names jz ! i = plate_path n
           \<and> (distinct (map fst jz) \<longrightarrow>
                (\<forall>j < length (gcode_member_names jz). gcode_member_names jz ! j = plate_path n \<longrightarrow> j = i))
           \<and> plate_record (content member) (i + 1) \<in> set (plates extracted)"
proof -
  let ?names = "gcode_member_names jz"
  let ?keep = "filter (\<lambda>i. content (the (zip_file jz (?names ! i))) \<noteq> []) [0..<length ?names]"
  let ?ps = "map (\<lambda>i. plate_record (content (the (zip_file jz (?names ! i)))) (i + 1)) ?keep"
  have "plate_path n \<in> set ?names"
    using assms(5) by (simp add: gcode_member_names_zip_file plate_path_endsWith)
  then obtain i where i: "i < length ?names" "?names ! i = plate_path n"
    by (auto simp: in_set_conv_nth)
  then have "i \<in> set ?keep"
    using assms(5,6) by simp
  then have "plate_record (content (the (zip_file jz (?names ! i)))) (i + 1) \<in> set ?ps"
    by (simp only: set_map image_eqI)
  then have in_ps: "plate_record (content member) (i + 1) \<in> set ?ps"
    using i(2) assms(5) by simp
  then have "?ps \<noteq> []" by (rule in_set_not_Nil)
  then have ex: "extractAllPlatesFromZip loadAsync file =
      Inr \<lparr>plates = ?ps, originalZip = arrayBuffer, fileName = file_name file\<rparr>"
    unfolding extract_fallback_closed [of "file" arrayBuffer loadAsync jz, OF assms(1,2,3)] Let_def
    by simp
  have uniq: "j = i" if "distinct (map fst jz)" "j < length ?names" "?names ! j = plate_path n" for j
    using gcode_member_names_distinct [OF that(1)] that(2,3) i
    by (metis nth_eq_iff_index_eq)
  show ?thesis
    using ex gcode_member_names_sorted [of jz] i in_ps uniq
    by (intro exI [of _ "\<lparr>plates = ?ps, originalZip = arrayBuffer, fileName = file_name file\<rparr>"]
        exI [of _ i]) simp
qed

theorem high_plate_found_by_fallback_witness:
  "\<exists>extracted. extractAllPlatesFromZip (\<lambda>bytes. Some (high_plates_archive (str ''G1 X1'') (str ''G28'')))
        example_fallback_file = Inr extracted
     \<and> plate_record (str ''G1 X1'') 2 \<in> set (plates extracted)"
proof -
  let ?jz = "high_plates_archive (str ''G1 X1'') (str ''G28'')"
  have a: "file_arrayBuffer example_fallback_file = Some [80, 75, 5, 6]"
    by (simp add: example_fallback_file_def)
  have b: "(16::nat) < 18" by simp
  have c: "zip_file ?jz (plate_path 18) = Some \<lparr>dir = False, content = str ''G1 X1''\<rparr>"
    by (simp add: plate_path_17_18 high_plates_archive_members)
  have d: "content \<lparr>dir = False, content = str ''G1 X1''\<rparr> \<noteq> []"
    by (simp add: str_def)
  from high_plate_found_by_fallback [of example_fallback_file "[80, 75, 5, 6]" "\<lambda>bytes. Some ?jz" ?jz
      18 "\<lparr>dir = False, content = str ''G1 X1''\<rparr>", OF a refl high_plates_archive_no_plates b c d]
  obtain extracted i where
    e: "extractAllPlatesFromZip (\<lambda>bytes. Some ?jz) example_fallback_file = Inr extracted"
    and i: "i < length (gcode_member_names ?jz)" "gcode_member_names ?jz ! i = plate_path 18"
    and p: "plate_record (content \<lparr>dir = False, content = str ''G1 X1''\<rparr>) (i + 1) \<in> set (plates extracted)"
    by blast
  from i have "i = 1"
    by (cases i) (simp_all add: high_plates_archive_names plate_path_17_18 str_def)
  with e p show ?thesis
    by (simp add: numeral_2_eq_2)
qed


section \<open>Operations on the work queue\<close>

lemma processUploadedFile_copies:
  "processUploadedFile loadAsync generateId calls file = Inr (processed, calls')
    \<Longrightarrow> list_all (\<lambda>f. copies f = 1) processed"
  by (auto simp: processUploadedFile_def selectable_file_def Let_def list_all_iff split: sum.splits)

lemma handleFilesSelected_loop_copies:
  "list_all (\<lambda>f. copies f = 1) newFiles \<Longrightarrow>
   handleFilesSelected_loop loadAsync generateId selectedFiles (calls, newFiles, errors) = (calls', newFiles', errors')
   \<Longrightarrow> list_all (\<lambda>f. copies f = 1) newFiles'"
proof (induction selectedFiles arbitrary: calls newFiles errors)
  case Nil
  then show ?case by simp
next
  case (Cons f selectedFiles)
  show ?case
  proof (cases "processUploadedFile loadAsync generateId calls f")
    case (Inl e)
    then show ?thesis
      using Cons by (cases e) auto
  next
    case (Inr r)
    obtain processed c where r: "r = (processed, c)" by (cases r)
    with Inr have a: "list_all (\<lambda>f. copies f = 1) (newFiles @ processed)"
      using processUploadedFile_copies Cons.prems(1) by fastforce
    have b: "handleFilesSelected_loop loadAsync generateId selectedFiles
        (c, newFiles @ processed, errors) = (calls', newFiles', errors')"
      using Cons.prems(2) Inr r by simp
    show ?thesis
      by (rule Cons.IH [OF a b])
  qed
qed

lemma handleFilesSelected_in_range:
  assumes "copies_in_range st"
  shows "copies_in_range (handleFilesSelected loadAsync generateId selectedFiles st)"
proof -
  obtain calls newFiles errors where
    l: "handleFilesSelected_loop loadAsync generateId selectedFiles (id_calls st, [], []) = (calls, newFiles, errors)"
    by (metis prod_cases3)
  then have "list_all (\<lambda>f. copies f = 1) newFiles"
    using handleFilesSelected_loop_copies [of "[]"] by fastforce
  then have "list_all (\<lambda>file. 1 \<le> copies file \<and> copies file \<le> 99) newFiles"
    by (simp add: list_all_iff)
  with assms l show ?thesis
    by (simp add: handleFilesSelected_def copies_in_range_def)
qed

lemma handleUpdateCopies_in_range:
  "copies_in_range st \<Longrightarrow> 1 \<le> n \<Longrightarrow> n \<le> 99 \<Longrightarrow> copies_in_range (handleUpdateCopies ident n st)"
  by (auto simp: copies_in_range_def handleUpdateCopies_def list_all_iff)

lemma clamp_eq:
  "max 1 (min 99 (case requested of None \<Rightarrow> 1 | Some n \<Rightarrow> if n = 0 then 1 else n)) = clamp_copies requested"
  by (auto simp: clamp_copies_def split: option.splits)

lemma clamp_copies_range: "1 \<le> clamp_copies requested \<and> clamp_copies requested \<le> 99"
  by (auto simp: clamp_copies_def split: option.splits)

lemma splice_subset:
  "set (take j (take i xs @ drop (Suc i) xs) @ [xs ! i] @ drop j (take i xs @ drop (Suc i) xs))
     \<subseteq> insert (xs ! i) (set xs)"
proof -
  have "set (take i xs @ drop (Suc i) xs) \<subseteq> set xs"
    by (auto dest: in_set_takeD in_set_dropD)
  moreover have "set (take j ys @ [x] @ drop j ys) \<subseteq> insert x (set ys)" for x and ys :: "'a list"
    by (auto dest: in_set_takeD in_set_dropD)
  ultimately show ?thesis by blast
qed

lemma handleDragEnd_in_range:
  assumes "copies_in_range st"
  shows "copies_in_range (handleDragEnd dragIndex dragOverIndex st)"
proof (cases "\<exists>i j. dragIndex = Some i \<and> dragOverIndex = Some j \<and> i \<noteq> j
    \<and> i < length (app_files st) \<and> j < length (app_files st)")
  case True
  then obtain i j where ij: "dragIndex = Some i" "dragOverIndex = Some j" "i \<noteq> j"
    "i < length (app_files st)" "j < length (app_files st)" by blast
  let ?xs = "app_files st"
  let ?new = "take j (take i ?xs @ drop (Suc i) ?xs) @ [?xs ! i] @ drop j (take i ?xs @ drop (Suc i) ?xs)"
  have "set ?new \<subseteq> set ?xs"
    using splice_subset [of j i ?xs] ij(4) by auto
  then have "list_all (\<lambda>file. 1 \<le> copies file \<and> copies file \<le> 99) ?new"
    using assms unfolding copies_in_range_def list_all_iff by blast
  then show ?thesis
    using ij by (simp add: handleDragEnd_def handleReorder_def copies_in_range_def Let_def)
next
  case False
  then have "handleDragEnd dragIndex dragOverIndex st = st"
    by (auto simp: handleDragEnd_def split: option.splits)
  with assms show ?thesis by simp
qed

lemma step_in_range:
  assumes "copies_in_range st"
  shows "copies_in_range (step loadAsync generateId st ev)"
proof (cases ev)
  case (FilesSelected selectedFiles)
  with assms show ?thesis
    by (simp add: step_def handleFilesSelected_in_range)
next
  case (CopiesChange i val)
  with assms show ?thesis
    by (simp add: step_def handleCopiesChange_def clamp_eq clamp_copies_range handleUpdateCopies_in_range)
next
  case (IncrementCopies i)
  have "1 \<le> copies (app_files st ! i)" if "i < length (app_files st)"
    using assms that by (simp add: copies_in_range_def list_all_length)
  with assms IncrementCopies show ?thesis
    by (auto simp: step_def incrementCopies_def intro!: handleUpdateCopies_in_range)
next
  case (DecrementCopies i)
  have "copies (app_files st ! i) \<le> 99" if "i < length (app_files st)"
    using assms that by (simp add: copies_in_range_def list_all_length)
  with assms DecrementCopies show ?thesis
    by (auto simp: step_def decrementCopies_def intro!: handleUpdateCopies_in_range)
next
  case (Remove i)
  with assms show ?thesis
    by (auto simp: step_def handleRemove_def copies_in_range_def list_all_iff)
next
  case ClearAll
  then show ?thesis
    by (simp add: step_def handleClearAll_def copies_in_range_def)
next
  case (DragEnd dragIndex dragOverIndex)
  with assms show ?thesis
    by (simp add: step_def handleDragEnd_in_range)
qed

lemma run_in_range:
  "copies_in_range st \<Longrightarrow> copies_in_range (foldl (step loadAsync generateId) st evs)"
  by (induction evs arbitrary: st) (simp_all add: step_in_range)

lemma copies_change_sets:
  assumes "i < length (app_files st)"
  shows "copies (app_files (step loadAsync generateId st (CopiesChange i val)) ! i) = clamp_copies (parseInt val)"
  using assms by (simp add: step_def handleCopiesChange_def clamp_eq handleUpdateCopies_def)

lemma parseInt_examples:
  "parseInt (str ''0'') = Some 0" "parseInt (str ''-5'') = Some (- 5)" "parseInt (str ''150'') = Some 150"
  "parseInt (str '''') = None"
  by (simp_all add: parseInt_def str_def is_space_def is_digit_def nat_of_digits_def Let_def)


text \<open>
  Claim C8. Every entry of the work queue has a copy count between 1 and 99: the queue is
  empty at first, the entries made from an upload have copy count 1, the copies-change
  operation stores the requested integer clamped into \<open>[1, 99]\<close> (1 when the input holds no
  number), so that the requests 0, -5 and 150 give 1, 1 and 99, and every queue operation
  keeps all copy counts in the range.
\<close>

theorem copies_in_range_invariant:
  "copies_in_range (foldl (step loadAsync generateId) initial_state evs)
   \<and> (copies_in_range st \<longrightarrow> copies_in_range (step loadAsync generateId st ev))
   \<and> (processUploadedFile loadAsync generateId calls file = Inr (processed, calls')
        \<longrightarrow> list_all (\<lambda>f. copies f = 1) processed)
   \<and> (i < length (app_files st) \<longrightarrow>
        copies (app_files (step loadAsync generateId st (CopiesChange i val)) ! i)
          = clamp_copies (parseInt val)
        \<and> copies (app_files (step loadAsync generateId st (CopiesChange i (str ''0''))) ! i) = 1
        \<and> copies (app_files (step loadAsync generateId st (CopiesChange i (str ''-5''))) ! i) = 1
        \<and> copies (app_files (step loadAsync generateId st (CopiesChange i (str ''150''))) ! i) = 99)"
proof -
  have "copies_in_range initial_state"
    by (simp add: copies_in_range_def initial_state_def)
  then have "copies_in_range (foldl (step loadAsync generateId) initial_state evs)"
    by (rule run_in_range)
  moreover have "clamp_copies (Some 0) = 1" "clamp_copies (Some (- 5)) = 1" "clamp_copies (Some 150) = 99"
    by (simp_all add: clamp_copies_def)
  ultimately show ?thesis
    using step_in_range [of st loadAsync generateId ev]
      processUploadedFile_copies [of loadAsync generateId calls "file" processed calls']
    by (simp add: copies_change_sets parseInt_examples)
qed

theorem copies_in_range_invariant_witness:
  "copies_in_range example_state
   \<and> copies_in_range (step example_loadAsync (\<lambda>n. []) example_state (CopiesChange 0 (str ''150'')))
   \<and> copies (app_files (step example_loadAsync (\<lambda>n. []) example_state (CopiesChange 0 (str ''150''))) ! 0) = 99
   \<and> (\<exists>processed. processUploadedFile example_loadAsync (\<lambda>n. []) 1 example_file = Inr (processed, 3)
         \<and> length processed = 2 \<and> list_all (\<lambda>f. copies f = 1) processed)"
proof -
  let ?extracted = "\<lparr>plates = [plate_record (str ''G28'') 1, plate_record (str ''G28\<newline>G1 X5\<newline>'') 2],
          originalZip = [80, 75, 3, 4], fileName = str ''job.gcode.3mf''\<rparr>"
  let ?processed = "map (\<lambda>(i, plate). selectable_file ?extracted [] plate) (enumerate 0 (plates ?extracted))"
  have a: "copies_in_range example_state"
    by (simp add: copies_in_range_def example_state_def example_queue_file_def)
  have b: "0 < length (app_files example_state)"
    by (simp add: example_state_def)
  have "extractAllPlatesFromZip example_loadAsync example_file = Inr ?extracted"
    by (rule example_extraction) (simp add: example_loadAsync_def)
  then have c: "processUploadedFile example_loadAsync (\<lambda>n. []) 1 example_file = Inr (?processed, 3)"
    by (simp add: processUploadedFile_def)
  from copies_in_range_invariant [of example_loadAsync "\<lambda>n. []" "[]" example_state
      "CopiesChange 0 (str ''150'')" 1 example_file ?processed 3 0 "str ''150''"] a b c
  have "copies_in_range (step example_loadAsync (\<lambda>n. []) example_state (CopiesChange 0 (str ''150'')))"
    and "copies (app_files (step example_loadAsync (\<lambda>n. []) example_state (CopiesChange 0 (str ''150''))) ! 0) = 99"
    and "list_all (\<lambda>f. copies f = 1) ?processed"
    by blast+
  moreover have "length ?processed = 2"
    by simp
  ultimately show ?thesis
    using a c by blast
qed









section \<open>Regular expressions of the time functions\<close>

lemma merge_capture_None [simp]: "merge_capture None c = c"
  by (simp add: merge_capture_def split: option.splits)

lemma merge_capture_None_right [simp]: "merge_capture c None = c"
  by (simp add: merge_capture_def)

lemma map_merge_None [simp]: "map (\<lambda>(c2, s2). (merge_capture None c2, s2)) xs = xs"
  by (induction xs) auto

lemma ms_Seq_Atom:
  "ms (Seq (Atom p) r) s = (case s of [] \<Rightarrow> [] | c # cs \<Rightarrow> if p c then ms r cs else [])"
  by (simp split: list.splits)

lemma ms_Star_Atom:
  "ms (Star True (Atom p)) s =
     (case s of [] \<Rightarrow> [(None, [])]
      | c # cs \<Rightarrow> if p c then ms (Star True (Atom p)) cs @ [(None, s)] else [(None, s)])"
  by (subst ms.simps) (simp split: list.splits)

lemma ms_Seq_assoc_Atom:
  "ms (Seq (Seq (Atom p) r1) r2) s = ms (Seq (Atom p) (Seq r1 r2)) s"
  by (simp split: list.splits)

text \<open>A greedy star over a character class, followed by a pattern that cannot start with a
  character of the class, takes the longest run.\<close>

lemma ms_Star_then:
  assumes "\<And>c cs. p c \<Longrightarrow> ms r (c # cs) = []"
  shows "ms (Seq (Star True (Atom p)) r) s = ms r (dropWhile p s)"
proof (induction s)
  case Nil
  show ?case
    by (subst ms.simps, subst ms_Star_Atom) simp
next
  case (Cons c cs)
  have "ms (Seq (Star True (Atom p)) r) (c # cs) =
      (if p c then ms (Seq (Star True (Atom p)) r) cs @ ms r (c # cs) else ms r (c # cs))"
    by (subst ms.simps, subst ms_Star_Atom) simp
  with Cons assms show ?case by simp
qed


lemma ms_group_star:
  assumes "\<And>c cs. p c \<Longrightarrow> ms r (c # cs) = []"
  shows "concat (map (\<lambda>(c1, s1). map (\<lambda>(c2, s2). (merge_capture c1 c2, s2)) (ms r s1))
           (map (\<lambda>(c, s'). (Some (take (length (pre @ cs) - length s') (pre @ cs)), s'))
                (ms (Star True (Atom p)) cs)))
         = map (\<lambda>(c2, s2). (merge_capture (Some (pre @ takeWhile p cs)) c2, s2))
               (ms r (dropWhile p cs))"
proof (induction cs arbitrary: pre)
  case Nil
  show ?case
    by (subst ms_Star_Atom) simp
next
  case (Cons c cs)
  show ?case
  proof (cases "p c")
    case True
    have "concat (map (\<lambda>(c1, s1). map (\<lambda>(c2, s2). (merge_capture c1 c2, s2)) (ms r s1))
           (map (\<lambda>(c', s'). (Some (take (length (pre @ c # cs) - length s') (pre @ c # cs)), s'))
                (ms (Star True (Atom p)) (c # cs))))
        = concat (map (\<lambda>(c1, s1). map (\<lambda>(c2, s2). (merge_capture c1 c2, s2)) (ms r s1))
           (map (\<lambda>(c', s'). (Some (take (length ((pre @ [c]) @ cs) - length s') ((pre @ [c]) @ cs)), s'))
                (ms (Star True (Atom p)) cs)))"
      using True assms by (subst ms_Star_Atom) simp
    also have "\<dots> = map (\<lambda>(c2, s2). (merge_capture (Some ((pre @ [c]) @ takeWhile p cs)) c2, s2))
               (ms r (dropWhile p cs))"
      by (rule Cons.IH)
    finally show ?thesis
      using True by simp
  next
    case False
    then show ?thesis
      by (subst ms_Star_Atom) simp
  qed
qed

lemma ms_Group_Plus_then:
  assumes "\<And>c cs. p c \<Longrightarrow> ms r (c # cs) = []"
  shows "ms (Seq (Group (Plus True (Atom p))) r) s =
     (if takeWhile p s = [] then []
      else map (\<lambda>(c2, s2). (merge_capture (Some (takeWhile p s)) c2, s2)) (ms r (dropWhile p s)))"
proof (cases s)
  case Nil
  then show ?thesis
    by (simp add: Plus_def)
next
  case (Cons c cs)
  show ?thesis
  proof (cases "p c")
    case False
    with Cons show ?thesis
      by (simp add: Plus_def)
  next
    case True
    have "ms (Seq (Group (Plus True (Atom p))) r) (c # cs) =
        concat (map (\<lambda>(c1, s1). map (\<lambda>(c2, s2). (merge_capture c1 c2, s2)) (ms r s1))
           (map (\<lambda>(c', s'). (Some (take (length ([c] @ cs) - length s') ([c] @ cs)), s'))
                (ms (Star True (Atom p)) cs)))"
      using True unfolding Plus_def
      by (subst ms.simps, subst ms.simps, subst ms_Seq_Atom) simp
    also have "\<dots> = map (\<lambda>(c2, s2). (merge_capture (Some ([c] @ takeWhile p cs)) c2, s2))
               (ms r (dropWhile p cs))"
      by (rule ms_group_star [OF assms])
    finally show ?thesis
      using True Cons by simp
  qed
qed

lemma ms_chr_i_end:
  "ms (seqs [chr_i u]) s = (case s of [] \<Rightarrow> [] | x # xs \<Rightarrow> if matches_i u x then [(None, xs)] else [])"
  by (simp add: seqs_def chr_i_def matches_i_def split: list.splits)

lemma ms_unitPattern:
  assumes "\<And>x. is_space x \<Longrightarrow> \<not> matches_i u x" and "\<And>x. is_digit x \<Longrightarrow> \<not> matches_i u x"
  shows "ms (unitPattern u) s =
     (let ds = takeWhile is_digit s; r = dropWhile is_space (dropWhile is_digit s)
      in if ds \<noteq> [] \<and> r \<noteq> [] \<and> matches_i u (hd r) then [(Some ds, tl r)] else [])"
proof -
  have sp: "ms (seqs [chr_i u]) (c # cs) = []" if "is_space c" for c cs
    using assms(1) [OF that] by (simp add: ms_chr_i_end)
  have tail: "ms (seqs [Star True space, chr_i u]) t = ms (seqs [chr_i u]) (dropWhile is_space t)" for t
    using ms_Star_then [of is_space "seqs [chr_i u]", OF sp]
    by (simp add: seqs_def space_def)
  have not_space_digit: "\<not> is_space c" if "is_digit c" for c
    using that by (auto simp: is_digit_def is_space_def)
  have dg: "ms (seqs [Star True space, chr_i u]) (c # cs) = []" if "is_digit c" for c cs
    using assms(2) [OF that] not_space_digit [OF that] by (simp add: tail ms_chr_i_end)
  have up: "unitPattern u = Seq (Group (Plus True (Atom is_digit))) (seqs [Star True space, chr_i u])"
    by (simp add: unitPattern_def seqs_def digit_def)
  have "ms (unitPattern u) s =
     ms (Seq (Group (Plus True (Atom is_digit))) (seqs [Star True space, chr_i u])) s"
    by (simp only: up)
  also have "\<dots> = (if takeWhile is_digit s = [] then []
      else map (\<lambda>(c2, s2). (merge_capture (Some (takeWhile is_digit s)) c2, s2))
               (ms (seqs [Star True space, chr_i u]) (dropWhile is_digit s)))"
    by (rule ms_Group_Plus_then [OF dg])
  also have "\<dots> = (if takeWhile is_digit s = [] then []
      else map (\<lambda>(c2, s2). (merge_capture (Some (takeWhile is_digit s)) c2, s2))
               (ms (seqs [chr_i u]) (dropWhile is_space (dropWhile is_digit s))))"
    by (simp only: tail)
  finally have eq: "ms (unitPattern u) s = (if takeWhile is_digit s = [] then []
      else map (\<lambda>(c2, s2). (merge_capture (Some (takeWhile is_digit s)) c2, s2))
               (ms (seqs [chr_i u]) (dropWhile is_space (dropWhile is_digit s))))" .
  show ?thesis
  proof (cases "dropWhile is_space (dropWhile is_digit s)")
    case Nil
    show ?thesis
      unfolding eq ms_chr_i_end Let_def Nil by simp
  next
    case (Cons x xs)
    show ?thesis
      unfolding eq ms_chr_i_end Let_def Cons by simp
  qed
qed


subsection \<open>Decimal numbers\<close>





lemma digit_not_space: "is_digit c \<Longrightarrow> \<not> is_space c"
  by (auto simp: is_digit_def is_space_def)

lemma parseInt_digits:
  assumes "ds \<noteq> []" and "list_all is_digit ds"
  shows "parseInt ds = Some (int (nat_of_digits ds))"
proof -
  from assms obtain d ds' where ds: "ds = d # ds'" and d: "is_digit d"
    by (cases ds) auto
  have "dropWhile is_space ds = ds"
    using ds d by (simp add: digit_not_space)
  moreover have "d \<noteq> 45" "d \<noteq> 43"
    using d by (auto simp: is_digit_def)
  moreover have "takeWhile is_digit ds = ds"
    using assms(2) by (simp add: takeWhile_eq_all_conv list_all_iff)
  ultimately show ?thesis
    using ds by (simp add: parseInt_def Let_def)
qed



subsection \<open>The all-digits test\<close>

lemma ms_Eol_end: "ms (seqs [Eol]) s = (if s = [] then [(None, [])] else [])"
  by (simp add: seqs_def)

lemma re_test_allDigits:
  "re_test_at_start allDigitsPattern s \<longleftrightarrow> s \<noteq> [] \<and> list_all is_digit s"
proof (cases s)
  case Nil
  then show ?thesis
    by (simp add: re_test_at_start_def allDigitsPattern_def seqs_def Plus_def digit_def)
next
  case (Cons c cs)
  have "ms (Seq (Star True (Atom is_digit)) (seqs [Eol])) cs = ms (seqs [Eol]) (dropWhile is_digit cs)"
    by (rule ms_Star_then) (simp add: ms_Eol_end)
  then have "ms allDigitsPattern (c # cs) =
      (if is_digit c then ms (seqs [Eol]) (dropWhile is_digit cs) else [])"
    unfolding allDigitsPattern_def Plus_def digit_def
    by (subst seqs_def, simp only: foldr.simps comp_def, subst ms_Seq_assoc_Atom, subst ms_Seq_Atom)
       (simp add: seqs_def)
  then show ?thesis
    using Cons by (auto simp: re_test_at_start_def ms_Eol_end dropWhile_eq_Nil_conv list_all_iff)
qed

subsection \<open>Durations: the formatter and the parser\<close>

lemma matches_i_letters:
  "matches_i CHR ''h'' x \<longleftrightarrow> x = 104 \<or> x = 72"
  "matches_i CHR ''m'' x \<longleftrightarrow> x = 109 \<or> x = 77"
  "matches_i CHR ''s'' x \<longleftrightarrow> x = 115 \<or> x = 83"
  by (auto simp: matches_i_def to_upper_def)


lemma unit_letter_no_space: "unit_letter u \<Longrightarrow> is_space x \<Longrightarrow> \<not> matches_i u x"
  by (auto simp: unit_letter_def matches_i_letters is_space_def)

lemma unit_letter_no_digit: "unit_letter u \<Longrightarrow> is_digit x \<Longrightarrow> \<not> matches_i u x"
  by (auto simp: unit_letter_def matches_i_letters is_digit_def)

lemma ms_unitPattern':
  assumes "unit_letter u"
  shows "ms (unitPattern u) s =
     (let ds = takeWhile is_digit s; r = dropWhile is_space (dropWhile is_digit s)
      in if ds \<noteq> [] \<and> r \<noteq> [] \<and> matches_i u (hd r) then [(Some ds, tl r)] else [])"
  using assms by (intro ms_unitPattern) (auto dest: unit_letter_no_space unit_letter_no_digit)

text \<open>
  A match of a unit pattern captures a non-empty run of digits, so that \<open>parseInt\<close> reads
  a number from it.
\<close>

lemma re_match_unitPattern_digits:
  assumes "unit_letter u" and "re_match (unitPattern u) s = Some m"
  shows "\<exists>ds. m = Some ds \<and> ds \<noteq> [] \<and> list_all is_digit ds"
  using assms(2)
proof (induction s)
  case Nil
  then show ?case
    using assms(1) by (simp add: ms_unitPattern' Let_def)
next
  case (Cons x xs)
  show ?case
  proof (cases "ms (unitPattern u) (x # xs)")
    case Nil
    with Cons show ?thesis by simp
  next
    case (Cons a list)
    then have "m = Some (takeWhile is_digit (x # xs))" and "takeWhile is_digit (x # xs) \<noteq> []"
      using Cons.prems ms_unitPattern' [OF assms(1), of "x # xs"]
      by (auto simp: Let_def split: if_splits)
    moreover have "list_all is_digit (takeWhile is_digit (x # xs))"
      unfolding list_all_iff by (meson set_takeWhileD)
    ultimately show ?thesis by blast
  qed
qed


















lemma formatSeconds_examples:
  "formatSeconds 0 = str ''0s''" "formatSeconds 90 = str ''1m 30s''"
  "formatSeconds 180 = str ''3m''" "formatSeconds 3661 = str ''1h 1m 1s''"
  by (simp_all add: formatSeconds_def signed_modulo_int_def string_of_int_def
      digits_of_nat.simps str_def Let_def)


section \<open>The total time of the queue\<close>

lemmas regex_eval = seqs_def chr_i_def str_i_def Plus_def Opt_def one_of_def digit_def space_def dot_def
  is_space_def is_digit_def is_line_terminator_def to_upper_def str_def merge_capture_def

lemma calculateTotalTime_loop_closed:
  "calculateTotalTime_loop files (totalSeconds, hasAnyTime) =
     (totalSeconds + sum_list (map estimate_seconds files),
      hasAnyTime \<or> \<not> list_all (\<lambda>f. gf_estimatedTime f = None \<or> gf_estimatedTime f = Some []) files)"
  by (induction files arbitrary: totalSeconds hasAnyTime)
     (auto simp: estimate_seconds_def split: option.splits)

text \<open>
  Claim C7, amended. The total is absent exactly when no entry of the list has a non-empty
  estimate. Otherwise it is the formatted sum, over the entries, of the parsed seconds of
  the estimate times the copy count for an entry with a non-empty estimate, and of 0 for an
  entry without one (no estimate, or the empty string).
\<close>

theorem total_time_of_estimates:
  "calculateTotalTime files =
     (if list_all (\<lambda>f. gf_estimatedTime f = None \<or> gf_estimatedTime f = Some []) files then None
      else Some (formatSeconds (sum_list (map estimate_seconds files))))
   \<and> (gf_estimatedTime file = None \<or> gf_estimatedTime file = Some [] \<longrightarrow> estimate_seconds file = 0)
   \<and> (gf_estimatedTime file = Some text \<and> text \<noteq> []
        \<longrightarrow> estimate_seconds file = parseTimeToSeconds text * copies file)"
  by (auto simp: calculateTotalTime_def calculateTotalTime_loop_closed estimate_seconds_def)

lemmas time_eval = parseTimeToSeconds_def unitPattern_def allDigitsPattern_def trim_def
  re_test_at_start_def group1_def parseInt_number_def parseInt_def nat_of_digits_def Let_def

lemma parseTimeToSeconds_example: "parseTimeToSeconds (str ''1m 30s'') = 90"
  by (simp add: time_eval regex_eval)

theorem total_time_of_estimates_witness:
  "calculateTotalTime [example_timed_file (Some (str ''1m 30s'')) 2, example_timed_file None 3]
     = Some (str ''3m'')"
proof -
  let ?a = "example_timed_file (Some (str ''1m 30s'')) 2"
  let ?b = "example_timed_file None 3"
  have ne: "str ''1m 30s'' \<noteq> []"
    by (simp add: str_def)
  have "estimate_seconds ?a = parseTimeToSeconds (str ''1m 30s'') * copies ?a"
    using total_time_of_estimates [of "[]" ?a "str ''1m 30s''"] ne
    by (simp add: example_timed_file_def)
  then have a: "estimate_seconds ?a = 180"
    by (simp add: parseTimeToSeconds_example example_timed_file_def)
  have b: "estimate_seconds ?b = 0"
    using total_time_of_estimates [of "[]" ?b "[]"]
    by (simp add: example_timed_file_def)
  have "gf_estimatedTime ?a = Some (str ''1m 30s'')"
    by (simp add: example_timed_file_def)
  with ne have "\<not> list_all (\<lambda>f. gf_estimatedTime f = None \<or> gf_estimatedTime f = Some []) [?a, ?b]"
    by simp
  with total_time_of_estimates [of "[?a, ?b]" ?a "[]"] a b show ?thesis
    by (simp add: formatSeconds_examples)
qed

lemma estimate_of_match_Some:
  "estimate_of_match (Some v) =
     (if trim v \<noteq> [] \<and> list_all is_digit (trim v)
      then formatSeconds (int (nat_of_digits (trim v)))
      else trim v)"
  by (simp add: estimate_of_match_def group1_def Let_def re_test_allDigits parseInt_number_def
      parseInt_digits)

lemma blank_estimate:
  "parseEstimatedTime (str ''; estimated printing time = \<newline>'') = Some []"
proof -
  have m: "re_match estimatedPrintingTimePattern (str ''; estimated printing time = \<newline>'')
      = Some (Some (str '' ''))"
    by (simp add: estimatedPrintingTimePattern_def regex_eval)
  have "parseEstimatedTime (str ''; estimated printing time = \<newline>'')
      = Some (estimate_of_match (Some (str '' '')))"
    by (simp add: parseEstimatedTime_def timePatterns_def m)
  moreover have "trim (str '' '') = []"
    by (simp add: trim_def str_def is_space_def)
  ultimately show ?thesis
    by (simp add: estimate_of_match_Some)
qed

text \<open>
  An entry can carry an estimate that is the empty string: the scanner returns it for a
  comment whose value is blank. The total over such an entry alone is absent.
\<close>

theorem absent_iff_no_estimate_counterexample:
  "parseEstimatedTime (str ''; estimated printing time = \<newline>'') = Some []
   \<and> gf_estimatedTime (example_timed_file (Some []) 1) \<noteq> None
   \<and> calculateTotalTime [example_timed_file (Some []) 1] = None"
  by (simp add: blank_estimate calculateTotalTime_def example_timed_file_def)

section \<open>The time-estimate scanner\<close>

lemma ms_captures:
  "captures_group r \<Longrightarrow> (c, rest) \<in> set (ms r s) \<Longrightarrow> c \<noteq> None"
proof (induction r arbitrary: s c rest)
  case (Seq r1 r2)
  from Seq.prems(2) obtain c1 s1 c2 where
    a: "(c1, s1) \<in> set (ms r1 s)" and b: "(c2, rest) \<in> set (ms r2 s1)" and c: "c = merge_capture c1 c2"
    by auto
  from Seq.prems(1) have "captures_group r1 \<or> captures_group r2" by simp
  then show ?case
  proof
    assume "captures_group r1"
    from Seq.IH(1) [OF this a] show ?thesis
      by (cases c2) (simp_all add: c merge_capture_def)
  next
    assume "captures_group r2"
    from Seq.IH(2) [OF this b] show ?thesis
      by (cases c2) (simp_all add: c merge_capture_def)
  qed
next
  case (Alt r1 r2)
  then show ?case by auto
next
  case (Group r)
  then show ?case by auto
qed simp_all

lemma re_match_captures:
  "captures_group r \<Longrightarrow> re_match r s = Some m \<Longrightarrow> m \<noteq> None"
proof (induction s)
  case Nil
  then show ?case
    using ms_captures [of r _ _ "[]"]
    by (cases "ms r []") (auto simp del: ms.simps)
next
  case (Cons x xs)
  show ?case
  proof (cases "ms r (x # xs)")
    case Nil
    with Cons show ?thesis by simp
  next
    case (Cons a list)
    obtain c rest where "a = (c, rest)" by (cases a)
    with Cons have "(c, rest) \<in> set (ms r (x # xs))" by simp
    from ms_captures [OF Cons.prems(1) this] show ?thesis
      using Cons.prems(2) Cons \<open>a = (c, rest)\<close> by simp
  qed
qed

lemma timePatterns_capture:
  "captures_group estimatedPrintingTimePattern" "captures_group timeTagPattern"
  "captures_group totalEstimatedTimePattern"
  by (simp_all add: estimatedPrintingTimePattern_def timeTagPattern_def
      totalEstimatedTimePattern_def seqs_def)

lemma estimate_of_match_rendered: "estimate_of_match (Some v) = rendered_estimate v"
  by (simp add: estimate_of_match_Some rendered_estimate_def)

lemma parseEstimatedTime_cases:
  "parseEstimatedTime g =
     (case re_match estimatedPrintingTimePattern g of
        Some m \<Rightarrow> Some (estimate_of_match m)
      | None \<Rightarrow>
          (case re_match timeTagPattern g of
             Some m \<Rightarrow> Some (estimate_of_match m)
           | None \<Rightarrow>
               (case re_match totalEstimatedTimePattern g of
                  Some m \<Rightarrow> Some (estimate_of_match m)
                | None \<Rightarrow> None)))"
  by (simp add: parseEstimatedTime_def timePatterns_def split: option.splits)

lemma example_gcode_matches:
  "re_match estimatedPrintingTimePattern example_gcode = Some (Some (str ''1h 2m''))"
  "re_match timeTagPattern example_gcode = Some (Some (str ''100''))"
  by (simp_all add: example_gcode_def estimatedPrintingTimePattern_def timeTagPattern_def regex_eval)

lemma trim_examples:
  "trim (str ''1h 2m'') = str ''1h 2m''" "trim (str ''1h 2m '') = str ''1h 2m''"
  "trim (str ''3661'') = str ''3661''"
  by (simp_all add: trim_def str_def is_space_def)

lemma rendered_examples:
  "rendered_estimate (str ''1h 2m'') = str ''1h 2m''"
  "rendered_estimate (str ''1h 2m '') = str ''1h 2m''"
  "rendered_estimate (str ''3661'') = str ''1h 1m 1s''"
proof -
  have "\<not> list_all is_digit (str ''1h 2m'')"
    by (simp add: str_def is_digit_def)
  then show "rendered_estimate (str ''1h 2m'') = str ''1h 2m''"
    "rendered_estimate (str ''1h 2m '') = str ''1h 2m''"
    by (simp_all add: rendered_estimate_def trim_examples)
  have "list_all is_digit (str ''3661'')" "nat_of_digits (str ''3661'') = 3661" "str ''3661'' \<noteq> []"
    by (simp_all add: str_def is_digit_def nat_of_digits_def)
  then show "rendered_estimate (str ''3661'') = str ''1h 1m 1s''"
    by (simp add: rendered_estimate_def trim_examples formatSeconds_examples)
qed

text \<open>
  Claim C6, amended. The scanner tries the three patterns in the order of the source and
  the first pattern that matches anywhere in the text decides, even when a later pattern
  matches an earlier line (as in \<open>example_gcode\<close>); every match defines the captured
  value. The capture is trimmed of surrounding white space; a trimmed capture that is a
  bare integer is taken as whole seconds and rendered by the duration formatter, any other
  trimmed capture is returned as it is. The result is absent when no pattern matches.
\<close>

theorem time_estimate_priority:
  "(re_match estimatedPrintingTimePattern g = Some m
      \<longrightarrow> (\<exists>v. m = Some v \<and> parseEstimatedTime g = Some (rendered_estimate v)))
   \<and> (re_match estimatedPrintingTimePattern g = None \<and> re_match timeTagPattern g = Some m
      \<longrightarrow> (\<exists>v. m = Some v \<and> parseEstimatedTime g = Some (rendered_estimate v)))
   \<and> (re_match estimatedPrintingTimePattern g = None \<and> re_match timeTagPattern g = None
        \<and> re_match totalEstimatedTimePattern g = Some m
      \<longrightarrow> (\<exists>v. m = Some v \<and> parseEstimatedTime g = Some (rendered_estimate v)))
   \<and> (re_match estimatedPrintingTimePattern g = None \<and> re_match timeTagPattern g = None
        \<and> re_match totalEstimatedTimePattern g = None
      \<longrightarrow> parseEstimatedTime g = None)
   \<and> re_match timeTagPattern example_gcode = Some (Some (str ''100''))
   \<and> parseEstimatedTime example_gcode = Some (str ''1h 2m'')
   \<and> parseEstimatedTime (str ''G28\<newline>;TIME:3661\<newline>'') = Some (str ''1h 1m 1s'')"
proof -
  have some: "\<exists>v. m = Some v" if "re_match r g = Some m" "captures_group r" for r
    using re_match_captures [OF that(2,1)] by auto
  have a: "\<exists>v. m = Some v \<and> parseEstimatedTime g = Some (rendered_estimate v)"
    if "re_match estimatedPrintingTimePattern g = Some m"
    using some [OF that timePatterns_capture(1)] that
    by (auto simp: parseEstimatedTime_cases estimate_of_match_rendered)
  have b: "\<exists>v. m = Some v \<and> parseEstimatedTime g = Some (rendered_estimate v)"
    if "re_match estimatedPrintingTimePattern g = None" "re_match timeTagPattern g = Some m"
    using some [OF that(2) timePatterns_capture(2)] that
    by (auto simp: parseEstimatedTime_cases estimate_of_match_rendered)
  have c: "\<exists>v. m = Some v \<and> parseEstimatedTime g = Some (rendered_estimate v)"
    if "re_match estimatedPrintingTimePattern g = None" "re_match timeTagPattern g = None"
      "re_match totalEstimatedTimePattern g = Some m"
    using some [OF that(3) timePatterns_capture(3)] that
    by (auto simp: parseEstimatedTime_cases estimate_of_match_rendered)
  have d: "parseEstimatedTime g = None"
    if "re_match estimatedPrintingTimePattern g = None" "re_match timeTagPattern g = None"
      "re_match totalEstimatedTimePattern g = None"
    using that by (simp add: parseEstimatedTime_cases)
  have e: "parseEstimatedTime example_gcode = Some (str ''1h 2m'')"
    by (simp add: parseEstimatedTime_cases example_gcode_matches estimate_of_match_rendered
        rendered_examples)
  have "re_match estimatedPrintingTimePattern (str ''G28\<newline>;TIME:3661\<newline>'') = None"
    "re_match timeTagPattern (str ''G28\<newline>;TIME:3661\<newline>'') = Some (Some (str ''3661''))"
    by (simp_all add: estimatedPrintingTimePattern_def timeTagPattern_def regex_eval)
  then have f: "parseEstimatedTime (str ''G28\<newline>;TIME:3661\<newline>'') = Some (str ''1h 1m 1s'')"
    by (simp add: parseEstimatedTime_cases estimate_of_match_rendered rendered_examples)
  show ?thesis
    using a b c d e f example_gcode_matches(2) by blast
qed

theorem time_estimate_priority_witness:
  "parseEstimatedTime example_gcode = Some (str ''1h 2m'')
   \<and> parseEstimatedTime (str ''G28\<newline>;TIME:3661\<newline>'') = Some (str ''1h 1m 1s'')
   \<and> parseEstimatedTime (str ''; total estimated time: 45m\<newline>'') = Some (str ''45m'')
   \<and> parseEstimatedTime (str ''G28\<newline>G1 X5\<newline>'') = None"
proof -
  let ?g2 = "str ''G28\<newline>;TIME:3661\<newline>''"
  let ?g3 = "str ''; total estimated time: 45m\<newline>''"
  let ?g4 = "str ''G28\<newline>G1 X5\<newline>''"
  have m2: "re_match estimatedPrintingTimePattern ?g2 = None"
    "re_match timeTagPattern ?g2 = Some (Some (str ''3661''))"
    by (simp_all add: estimatedPrintingTimePattern_def timeTagPattern_def regex_eval)
  have m3: "re_match estimatedPrintingTimePattern ?g3 = None"
    "re_match timeTagPattern ?g3 = None"
    "re_match totalEstimatedTimePattern ?g3 = Some (Some (str ''45m''))"
    by (simp_all add: estimatedPrintingTimePattern_def timeTagPattern_def
        totalEstimatedTimePattern_def regex_eval)
  have m4: "re_match estimatedPrintingTimePattern ?g4 = None"
    "re_match timeTagPattern ?g4 = None"
    "re_match totalEstimatedTimePattern ?g4 = None"
    by (simp_all add: estimatedPrintingTimePattern_def timeTagPattern_def
        totalEstimatedTimePattern_def regex_eval)
  have r3: "rendered_estimate (str ''45m'') = str ''45m''"
    by (simp add: rendered_estimate_def trim_def str_def is_space_def is_digit_def)
  from time_estimate_priority [of example_gcode "Some (str ''1h 2m'')"] example_gcode_matches(1)
  have "parseEstimatedTime example_gcode = Some (rendered_estimate (str ''1h 2m''))"
    by simp
  moreover from time_estimate_priority [of ?g2 "Some (str ''3661'')"] m2
  have "parseEstimatedTime ?g2 = Some (rendered_estimate (str ''3661''))"
    by simp
  moreover from time_estimate_priority [of ?g3 "Some (str ''45m'')"] m3
  have "parseEstimatedTime ?g3 = Some (rendered_estimate (str ''45m''))"
    by simp
  moreover from time_estimate_priority [of ?g4 None] m4
  have "parseEstimatedTime ?g4 = None"
    by simp
  ultimately show ?thesis
    by (simp add: rendered_examples r3)
qed

text \<open>
  A capture with a trailing space is not returned verbatim: the comment
  \<open>; estimated printing time = 1h 2m \<close> captures \<open>1h 2m \<close> and the scanner returns
  \<open>1h 2m\<close>.
\<close>

theorem capture_returned_verbatim_counterexample:
  "re_match estimatedPrintingTimePattern (str ''; estimated printing time = 1h 2m \<newline>'')
     = Some (Some (str ''1h 2m ''))
   \<and> \<not> list_all is_digit (str ''1h 2m '')
   \<and> parseEstimatedTime (str ''; estimated printing time = 1h 2m \<newline>'') = Some (str ''1h 2m'')
   \<and> str ''1h 2m'' \<noteq> str ''1h 2m ''"
proof -
  have m: "re_match estimatedPrintingTimePattern (str ''; estimated printing time = 1h 2m \<newline>'')
     = Some (Some (str ''1h 2m ''))"
    by (simp add: estimatedPrintingTimePattern_def regex_eval)
  then have "parseEstimatedTime (str ''; estimated printing time = 1h 2m \<newline>'') = Some (str ''1h 2m'')"
    by (simp add: parseEstimatedTime_cases estimate_of_match_rendered rendered_examples)
  moreover have "\<not> list_all is_digit (str ''1h 2m '')" "str ''1h 2m'' \<noteq> str ''1h 2m ''"
    by (simp_all add: str_def is_digit_def)
  ultimately show ?thesis
    using m by simp
qed

end
